theory Spec2Isabelle
  imports Main "HOL-Library.Word"
begin

unbundle bit_operations_syntax

section \<open>Signals, dispositions and the observable trace\<close>

text \<open>
  The handlers of \<^verbatim>\<open>engine/context/signal.c\<close> take the signal as a C \<^verbatim>\<open>int\<close>. The
  numbers below are those of \<^verbatim>\<open>signal.h\<close> on Linux, the platform the daemon is built
  for; the development only uses that they are pairwise distinct.
\<close>

type_synonym signal = int

definition SIGHUP :: signal where "SIGHUP = 1"
definition SIGINT :: signal where "SIGINT = 2"
definition SIGQUIT :: signal where "SIGQUIT = 3"
definition SIGABRT :: signal where "SIGABRT = 6"
definition SIGBUS :: signal where "SIGBUS = 7"
definition SIGFPE :: signal where "SIGFPE = 8"
definition SIGSEGV :: signal where "SIGSEGV = 11"
definition SIGPIPE :: signal where "SIGPIPE = 13"
definition SIGALRM :: signal where "SIGALRM = 14"
definition SIGTERM :: signal where "SIGTERM = 15"
definition SIGSYS :: signal where "SIGSYS = 31"

text \<open>The four handler entry points of the file, and what \<^verbatim>\<open>sa_handler\<close> can hold.\<close>

datatype handler_fn = Signal_segfault | Signal_shutdown | Signal_status | Signal_refresh

datatype sighandler = SIG_DFL | SIG_IGN | Handler handler_fn

record sigaction =
  sa_handler :: sighandler
  sa_mask :: "signal set"
  sa_flags :: "32 word"

definition SA_RESETHAND :: "32 word" where "SA_RESETHAND = 0x80000000"

definition SA_NODEFER :: "32 word" where "SA_NODEFER = 0x40000000"

text \<open>
  \<^verbatim>\<open>mm_wipe(&act, sizeof(struct sigaction))\<close> zeroes the structure: the handler is
  \<^verbatim>\<open>SIG_DFL\<close> (the null pointer), the mask is empty and no flag is set.
\<close>

definition mm_wipe_sigaction :: sigaction where
  "mm_wipe_sigaction = \<lparr>sa_handler = SIG_DFL, sa_mask = {}, sa_flags = 0\<rparr>"

datatype severity = M_LOG_INFO | M_LOG_ERROR | M_LOG_CRITICAL

text \<open>The entry point handed to \<^verbatim>\<open>thread_launch\<close>.\<close>

datatype thread_fn = Status_signal

text \<open>
  Every call that leaves the file is recorded, in program order, in one trace. A log line
  carries its severity, whether a stack trace was requested, the format string and the
  signal whose name is formatted into it. \<open>In_thread f e\<close> is an event performed by the
  helper thread running \<open>f\<close>, not by the handler.
\<close>

datatype event =
    Log severity bool string "signal option"
  | Enter handler_fn signal
  | Sigemptyset int
  | Sigaction signal sigaction int
  | Abort
  | Thread_launch thread_fn
  | Nanosleep int int
  | Queue_signal
  | Net_trigger bool
  | Thread_join
  | Status_set int
  | Mutex_lock
  | Mutex_unlock
  | Refresh_call
  | Refresh_return bool
  | In_thread thread_fn event

text \<open>
  The state the handlers act on. \<open>disposition\<close> is the kernel's table of installed
  actions, \<open>status_level\<close> the daemon's shutdown status (negative once a shutdown is in
  progress), \<open>sig_hup_mutex\<close> the reload mutex. The environment's answers are oracles:
  \<open>sys_ret k\<close> is the return value of the \<open>k\<close>-th \<^verbatim>\<open>sigemptyset\<close>/\<^verbatim>\<open>sigaction\<close> call
  (\<open>sys_calls\<close> counts the calls made so far), \<open>refresh_ret k\<close> the result of the \<open>k\<close>-th
  content refresh, \<open>raised\<close> the signals that occur in successive runs of the crash
  handler's logging path, each with its origin, \<open>launch_ok\<close> whether a thread can be
  created, and \<open>helper_delay\<close> the number of later sleeps of the launching thread that
  pass before a launched helper thread gets to run. \<open>blocked\<close> is the signal mask of the
  thread that runs the handlers and \<open>pending\<close> the signals that wait for it.

  A signal occurs inside a handler either because the code raises it (\<^verbatim>\<open>raise\<close>,
  \<^verbatim>\<open>kill\<close>) or because an instruction faults (an invalid access, a division).
\<close>

datatype origin = By_raise | By_fault

record world =
  disposition :: "signal \<Rightarrow> sigaction"
  status_level :: int
  sig_hup_mutex :: bool
  trace :: "event list"
  sys_ret :: "nat \<Rightarrow> int"
  sys_calls :: nat
  refresh_ret :: "nat \<Rightarrow> bool"
  refresh_calls :: nat
  raised :: "(origin \<times> signal) list"
  launch_ok :: bool
  helper_delay :: nat
  helper :: "(thread_fn \<times> nat) option"
  blocked :: "signal set"
  pending :: "signal set"

definition emit :: "event \<Rightarrow> world \<Rightarrow> world" where
  "emit e w = w\<lparr>trace := trace w @ [e]\<rparr>"

text \<open>The events a run added to the trace.\<close>

definition new_events :: "world \<Rightarrow> world \<Rightarrow> event list" where
  "new_events w w' = drop (length (trace w)) (trace w')"

text \<open>The return value the environment holds for the \<open>k\<close>-th registration call from now.\<close>

definition next_ret :: "world \<Rightarrow> nat \<Rightarrow> int" where
  "next_ret w k = sys_ret w (sys_calls w + k)"

text \<open>
  The process at start: every disposition is the default, the daemon is running, the
  reload mutex is free (\<^verbatim>\<open>PTHREAD_MUTEX_INITIALIZER\<close>), no signal is blocked or pending,
  nothing has happened yet, and the environment lets every call succeed.
\<close>

definition boot_world :: world where
  "boot_world =
     \<lparr>disposition = (\<lambda>s. mm_wipe_sigaction), status_level = 0, sig_hup_mutex = False,
      trace = [], sys_ret = (\<lambda>k. 0), sys_calls = 0, refresh_ret = (\<lambda>k. True),
      refresh_calls = 0, raised = [], launch_ok = True, helper_delay = 0, helper = None,
      blocked = {}, pending = {}\<rparr>"

subsection \<open>Logging\<close>

text \<open>
  Modelled from the spec: the logging subsystem is defined outside this file
  (\<^verbatim>\<open>log(severity, message, ...)\<close>, with an optional captured stack trace). A log call
  adds its line to the trace and does nothing else. \<^verbatim>\<open>log_info\<close>, \<^verbatim>\<open>log_error\<close> and
  \<^verbatim>\<open>log_critical\<close> are \<^verbatim>\<open>log_options\<close> at the three severities; only the crash handler
  also asks for a stack trace.
\<close>

definition log_options :: "severity \<Rightarrow> bool \<Rightarrow> string \<Rightarrow> signal option \<Rightarrow> world \<Rightarrow> world" where
  "log_options sev st msg arg w = emit (Log sev st msg arg) w"

definition log_info :: "string \<Rightarrow> signal option \<Rightarrow> world \<Rightarrow> world" where
  "log_info = log_options M_LOG_INFO False"

definition log_error :: "string \<Rightarrow> signal option \<Rightarrow> world \<Rightarrow> world" where
  "log_error = log_options M_LOG_ERROR False"

definition log_critical :: "string \<Rightarrow> signal option \<Rightarrow> world \<Rightarrow> world" where
  "log_critical = log_options M_LOG_CRITICAL False"

fun is_log :: "event \<Rightarrow> bool" where
  "is_log (Log sev st msg arg) = True"
| "is_log e = False"

subsection \<open>Registration calls\<close>

text \<open>
  \<^verbatim>\<open>sigemptyset\<close> and \<^verbatim>\<open>sigaction\<close> return 0 on success and a non-zero value on failure.
  The return value is the environment's; a failed \<^verbatim>\<open>sigaction\<close> installs nothing.
\<close>

definition sigemptyset :: "world \<Rightarrow> int \<times> world" where
  "sigemptyset w =
     (let r = sys_ret w (sys_calls w)
      in (r, emit (Sigemptyset r) (w\<lparr>sys_calls := Suc (sys_calls w)\<rparr>)))"

definition sigaction :: "signal \<Rightarrow> sigaction \<Rightarrow> world \<Rightarrow> int \<times> world" where
  "sigaction s act w =
     (let r = sys_ret w (sys_calls w);
          w' = emit (Sigaction s act r) (w\<lparr>sys_calls := Suc (sys_calls w)\<rparr>)
      in (r, if r = 0 then w'\<lparr>disposition := (disposition w)(s := act)\<rparr> else w'))"

text \<open>
  C's \<^verbatim>\<open>a || b || c\<close>: the calls run left to right, the first non-zero result makes the
  condition true and the calls after it are not made.
\<close>

fun c_or :: "(world \<Rightarrow> int \<times> world) list \<Rightarrow> world \<Rightarrow> bool \<times> world" where
  "c_or [] w = (False, w)"
| "c_or (c # cs) w = (case c w of (r, w') \<Rightarrow> if r \<noteq> 0 then (True, w') else c_or cs w')"

subsection \<open>\<^verbatim>\<open>signal_thread_start\<close> and \<^verbatim>\<open>signal_start\<close>\<close>

text \<open>
  Each structure is wiped, its handler and flags are assigned, and its mask is emptied by
  the \<^verbatim>\<open>sigemptyset\<close> call that opens the condition; the wiped mask is empty already, so
  the structure passed to \<^verbatim>\<open>sigaction\<close> has the empty mask.
\<close>

definition signal_thread_start :: "world \<Rightarrow> bool \<times> world" where
  "signal_thread_start w =
     (let status = mm_wipe_sigaction\<lparr>sa_handler := Handler Signal_status, sa_flags := 0\<rparr>
      in case c_or [sigemptyset, sigaction SIGALRM status] w of
           (failed, w1) \<Rightarrow>
             if failed
             then (False, log_info ''Could not setup the thread status signal handler.'' None w1)
             else (True, w1))"

definition signal_start :: "world \<Rightarrow> bool \<times> world" where
  "signal_start w =
     (let normal = mm_wipe_sigaction\<lparr>sa_handler := Handler Signal_shutdown, sa_flags := 0\<rparr>
      in case c_or [sigemptyset, sigaction SIGINT normal, sigaction SIGQUIT normal,
                    sigaction SIGTERM normal] w of
        (failed1, w1) \<Rightarrow>
      if failed1
      then (False, log_info ''Could not setup the shutdown signal handler.'' None w1)
      else
     (let ignored = mm_wipe_sigaction\<lparr>sa_handler := SIG_IGN, sa_flags := 0\<rparr>
      in case c_or [sigemptyset, sigaction SIGPIPE ignored] w1 of
        (failed2, w2) \<Rightarrow>
      if failed2
      then (False, log_info ''Could not setup the ignore signal handler'' None w2)
      else
     (let segfault = mm_wipe_sigaction\<lparr>sa_handler := Handler Signal_segfault,
                                        sa_flags := SA_RESETHAND\<rparr>
      in case c_or [sigemptyset, sigaction SIGSEGV segfault, sigaction SIGFPE segfault,
                    sigaction SIGBUS segfault, sigaction SIGSYS segfault,
                    sigaction SIGABRT segfault] w2 of
        (failed3, w3) \<Rightarrow>
      if failed3
      then (False, log_info ''Could not setup the shutdown signal handler.'' None w3)
      else
     (let hup = mm_wipe_sigaction\<lparr>sa_handler := Handler Signal_refresh, sa_flags := 0\<rparr>
      in case c_or [sigemptyset, sigaction SIGHUP hup] w3 of
        (failed4, w4) \<Rightarrow>
      if failed4
      then (False, log_info ''Could not setup the thread status signal handler.'' None w4)
      else (True, w4)))))"

section \<open>The handlers\<close>

text \<open>
  A handler invocation either returns, or ends the process (by the default action of a
  signal), or waits for the reload mutex.
\<close>

datatype outcome = Returned world | Killed signal world | Blocked world

subsection \<open>\<^verbatim>\<open>signal_status\<close>\<close>

text \<open>
  Modelled from the spec: \<^verbatim>\<open>status()\<close> is defined outside this file; it is the
  predicate "the daemon is still running", which reads the shared status and holds
  until the status has been set to a negative value.
\<close>

definition status :: "world \<Rightarrow> bool" where
  "status w = (0 \<le> status_level w)"

definition signal_status :: "signal \<Rightarrow> world \<Rightarrow> world" where
  "signal_status signal w =
     (if status w
      then log_info ''This worker thread was signaled but the status function doesn't indicate a shutdown is in progress. { signal = %s }''
             (Some signal) w
      else w)"

subsection \<open>\<^verbatim>\<open>signal_refresh\<close>\<close>

text \<open>
  Modelled from the spec: \<^verbatim>\<open>mutex_lock\<close> and \<^verbatim>\<open>mutex_unlock\<close> are defined outside this
  file; they lock and unlock the mutex they are given, here always \<^verbatim>\<open>sig_hup_mutex\<close>.
  \<^verbatim>\<open>mutex_lock\<close> takes the mutex when it is free; \<open>None\<close> says that the caller has to
  wait.
\<close>

definition mutex_lock :: "world \<Rightarrow> world option" where
  "mutex_lock w =
     (if sig_hup_mutex w then None else Some (emit Mutex_lock (w\<lparr>sig_hup_mutex := True\<rparr>)))"

definition mutex_unlock :: "world \<Rightarrow> world" where
  "mutex_unlock w = emit Mutex_unlock (w\<lparr>sig_hup_mutex := False\<rparr>)"

text \<open>
  Modelled from the spec: \<^verbatim>\<open>http_content_refresh\<close> is defined outside this file
  (\<^verbatim>\<open>refresh_disk_content() -> bool\<close>). It is a call into the web server: its start
  and its return are two events, and its result is the environment's.
\<close>

definition refresh_begin :: "world \<Rightarrow> world" where
  "refresh_begin w = emit Refresh_call w"

definition refresh_end :: "world \<Rightarrow> bool \<times> world" where
  "refresh_end w =
     (let r = refresh_ret w (refresh_calls w)
      in (r, emit (Refresh_return r) (w\<lparr>refresh_calls := Suc (refresh_calls w)\<rparr>)))"

definition http_content_refresh :: "world \<Rightarrow> bool \<times> world" where
  "http_content_refresh w = refresh_end (refresh_begin w)"

text \<open>The two branches of the handler's \<^verbatim>\<open>if\<close>, on the result of the refresh.\<close>

definition refresh_log :: "bool \<Rightarrow> world \<Rightarrow> world" where
  "refresh_log ok w =
     (if \<not> ok
      then log_error ''An error occurred while trying to refresh disk based content.'' None w
      else log_info ''Disk content refreshed.'' None w)"

definition signal_refresh :: "signal \<Rightarrow> world \<Rightarrow> outcome" where
  "signal_refresh signal w =
     (case mutex_lock w of
        None \<Rightarrow> Blocked w
      | Some w1 \<Rightarrow>
          (case http_content_refresh w1 of
             (ok, w2) \<Rightarrow> Returned (mutex_unlock (refresh_log ok w2))))"

subsection \<open>\<^verbatim>\<open>signal_shutdown\<close>\<close>

text \<open>
  Modelled from the spec: \<^verbatim>\<open>status_signal\<close>, the entry point of the helper thread, is
  defined outside this file. It publishes the shutdown status; the handler's header
  comment gives the value, -1.
\<close>

definition status_set :: "int \<Rightarrow> world \<Rightarrow> world" where
  "status_set v w = emit (Status_set v) (w\<lparr>status_level := v\<rparr>)"

definition status_signal :: "world \<Rightarrow> world" where
  "status_signal w = status_set (- 1) w"

text \<open>
  What a helper thread does when it runs: its events enter the trace marked as the
  thread's own.
\<close>

fun thread_body :: "thread_fn \<Rightarrow> world \<Rightarrow> world" where
  "thread_body Status_signal w =
     (let w' = status_signal (w\<lparr>trace := []\<rparr>)
      in w'\<lparr>trace := trace w @ map (In_thread Status_signal) (trace w')\<rparr>)"

text \<open>
  Modelled from the spec: \<^verbatim>\<open>thread_launch\<close> and \<^verbatim>\<open>thread_join\<close> are defined outside
  this file (\<^verbatim>\<open>spawn_thread(entry, arg) -> handle\<close>, \<^verbatim>\<open>join_thread(handle)\<close>), and so are
  \<^verbatim>\<open>queue_signal\<close> (the wake broadcast to the workers) and \<^verbatim>\<open>net_trigger\<close> (the forced
  close of listeners and connections), which are recorded as events.
  \<^verbatim>\<open>thread_launch\<close> starts the helper, unless the thread cannot be created (the
  handler does not look at the result; it has wiped its \<^verbatim>\<open>pthread_t\<close> so that the later
  join is harmless). The helper runs concurrently with the handler. The handler gives up
  the processor when it sleeps and when it joins: a helper launched with delay \<open>d\<close> runs
  during the \<open>d+1\<close>-th sleep after the launch, and at the join at the latest, since
  \<^verbatim>\<open>thread_join\<close> returns only once the thread has finished.
\<close>

definition thread_launch :: "thread_fn \<Rightarrow> world \<Rightarrow> world" where
  "thread_launch f w =
     (emit (Thread_launch f) w)
       \<lparr>helper := (if launch_ok w then Some (f, helper_delay w) else None)\<rparr>"

definition yield :: "world \<Rightarrow> world" where
  "yield w =
     (case helper w of
        None \<Rightarrow> w
      | Some (f, 0) \<Rightarrow> thread_body f (w\<lparr>helper := None\<rparr>)
      | Some (f, Suc n) \<Rightarrow> w\<lparr>helper := Some (f, n)\<rparr>)"

record timespec =
  tv_sec :: int
  tv_nsec :: int

definition nanosleep :: "timespec \<Rightarrow> world \<Rightarrow> world" where
  "nanosleep t w = yield (emit (Nanosleep (tv_sec t) (tv_nsec t)) w)"

definition queue_signal :: "world \<Rightarrow> world" where
  "queue_signal w = emit Queue_signal w"

definition net_trigger :: "bool \<Rightarrow> world \<Rightarrow> world" where
  "net_trigger queue w = emit (Net_trigger queue) w"

definition thread_join :: "world \<Rightarrow> world" where
  "thread_join w =
     emit Thread_join
       (case helper w of
          None \<Rightarrow> w
        | Some (f, n) \<Rightarrow> thread_body f (w\<lparr>helper := None\<rparr>))"

definition signal_shutdown :: "signal \<Rightarrow> world \<Rightarrow> world" where
  "signal_shutdown signal w =
     (let split = \<lparr>tv_sec = 0, tv_nsec = 100000000\<rparr>;
          single = \<lparr>tv_sec = 1, tv_nsec = 0\<rparr>;
          w1 = log_critical ''Signal received. The Magma daemon is attempting a graceful exit. { signal = %s }''
                 (Some signal) w;
          w2 = thread_launch Status_signal w1;
          w3 = nanosleep split w2;
          w4 = queue_signal w3;
          w5 = nanosleep single w4;
          w6 = nanosleep single w5;
          w7 = nanosleep single w6;
          w8 = net_trigger True w7;
          w9 = queue_signal w8
      in thread_join w9)"

subsection \<open>Signal delivery and \<^verbatim>\<open>signal_segfault\<close>\<close>

text \<open>
  The kernel's side of a signal, as Linux has it. When a signal is delivered, its
  disposition decides: the default ends the process (the default action of every signal
  registered here), an ignored signal does nothing, a caught one enters its handler. On
  entry the kernel puts the disposition back to the default when the action has
  \<^verbatim>\<open>SA_RESETHAND\<close>, and it blocks, for the time the handler runs, the signals of the
  action's mask and, unless the action has \<^verbatim>\<open>SA_NODEFER\<close>, the signal itself. When the
  handler returns, the mask it found is restored.
\<close>

definition handler_entry :: "handler_fn \<Rightarrow> signal \<Rightarrow> world \<Rightarrow> world" where
  "handler_entry h s w =
     (let act = disposition w s;
          w1 = (if sa_flags act AND SA_RESETHAND \<noteq> 0
                then w\<lparr>disposition := (disposition w)(s := act\<lparr>sa_handler := SIG_DFL\<rparr>)\<rparr>
                else w)
      in emit (Enter h s)
           (w1\<lparr>blocked := blocked w \<union> sa_mask act \<union>
                           (if sa_flags act AND SA_NODEFER \<noteq> 0 then {} else {s})\<rparr>))"

fun handler_return :: "world \<Rightarrow> outcome \<Rightarrow> outcome" where
  "handler_return w (Returned w') = Returned (w'\<lparr>blocked := blocked w\<rparr>)"
| "handler_return w out = out"

text \<open>
  A signal that occurs while it is blocked is not delivered. Raised by the code, it stays
  pending and the code goes on; caused by a faulting instruction, it ends the process,
  and so does a fault whose signal is ignored. A signal that is not blocked is delivered
  at once. A pending signal is delivered when it is unblocked; in this model signals
  occur only while the crash handler logs, and the crash handler does not return, so the
  only unblocking is that of \<^verbatim>\<open>abort\<close>.

  The crash handler calls \<^verbatim>\<open>abort\<close>, which unblocks \<^verbatim>\<open>SIGABRT\<close>, raises it, and ends
  the process even when a handler catches the signal and returns. Handlers can therefore
  nest. The nesting depth is the fuel \<open>n\<close>: \<open>None\<close> says that \<open>n\<close> nested deliveries were
  not enough.
\<close>

fun deliver :: "nat \<Rightarrow> signal \<Rightarrow> world \<Rightarrow> outcome option"
  and signal_raised :: "nat \<Rightarrow> origin \<Rightarrow> signal \<Rightarrow> world \<Rightarrow> outcome option"
  and signal_segfault :: "nat \<Rightarrow> signal \<Rightarrow> world \<Rightarrow> outcome option"
  and abort :: "nat \<Rightarrow> world \<Rightarrow> outcome option"
where
  "deliver 0 s w = None"
| "deliver (Suc n) s w =
     (case sa_handler (disposition w s) of
        SIG_DFL \<Rightarrow> Some (Killed s w)
      | SIG_IGN \<Rightarrow> Some (Returned w)
      | Handler h \<Rightarrow>
          (let w' = handler_entry h s w
           in case h of
                Signal_segfault \<Rightarrow> signal_segfault n s w'
              | Signal_shutdown \<Rightarrow>
                  Some (handler_return w (Returned (signal_shutdown s w')))
              | Signal_status \<Rightarrow>
                  Some (handler_return w (Returned (signal_status s w')))
              | Signal_refresh \<Rightarrow>
                  Some (handler_return w (signal_refresh s w'))))"
| "signal_raised n org s w =
     (if s \<in> blocked w
      then (case org of
              By_raise \<Rightarrow> Some (Returned (w\<lparr>pending := insert s (pending w)\<rparr>))
            | By_fault \<Rightarrow> Some (Killed s w))
      else if org = By_fault \<and> sa_handler (disposition w s) = SIG_IGN
      then Some (Killed s w)
      else deliver n s w)"
| "signal_segfault n signal w =
     (let w1 = log_options M_LOG_CRITICAL True
                 ''Memory corruption has been detected. Attempting to print a back trace and exit. { signal = %s }''
                 (Some signal) w
      in case (case raised w1 of
                 [] \<Rightarrow> Some (Returned w1)
               | (org, f) # rs \<Rightarrow> signal_raised n org f (w1\<lparr>raised := rs\<rparr>)) of
           Some (Returned w2) \<Rightarrow>
             (let clear = mm_wipe_sigaction\<lparr>sa_handler := SIG_DFL, sa_flags := 0\<rparr>
              in case sigemptyset w2 of
                   (r1, w3) \<Rightarrow>
                     (case sigaction SIGABRT clear w3 of
                        (r2, w4) \<Rightarrow> abort n w4))
         | other \<Rightarrow> other)"
| "abort n w =
     (case deliver n SIGABRT
             ((emit Abort w)\<lparr>blocked := blocked w - {SIGABRT},
                              pending := pending w - {SIGABRT}\<rparr>) of
        Some (Returned w') \<Rightarrow> Some (Killed SIGABRT w')
      | other \<Rightarrow> other)"

text \<open>The same signal delivered \<open>k\<close> times in a row, as long as the process lives.\<close>

fun deliver_many :: "nat \<Rightarrow> signal \<Rightarrow> nat \<Rightarrow> world \<Rightarrow> outcome option" where
  "deliver_many n s 0 w = Some (Returned w)"
| "deliver_many n s (Suc k) w =
     (case deliver n s w of
        Some (Returned w') \<Rightarrow> deliver_many n s k w'
      | other \<Rightarrow> other)"

section \<open>Concurrent reloads\<close>

text \<open>
  Several \<^verbatim>\<open>SIGHUP\<close> deliveries give several invocations of \<^verbatim>\<open>signal_refresh\<close>, each
  on a thread of its own (while a thread runs the handler the kernel keeps \<^verbatim>\<open>SIGHUP\<close>
  blocked in that thread, since the registration does not set \<^verbatim>\<open>SA_NODEFER\<close>). An
  invocation is a program counter over the statements of the handler; the invocations
  share the world and interleave statement by statement.
\<close>

datatype pc = At_lock | At_call | In_refresh | At_log bool | At_unlock | Done

record sys =
  shared :: world
  pcs :: "pc list"

text \<open>One statement of invocation \<open>i\<close>; \<open>None\<close> when it cannot move.\<close>

definition step :: "nat \<Rightarrow> sys \<Rightarrow> sys option" where
  "step i s =
     (if length (pcs s) \<le> i then None
      else case pcs s ! i of
        At_lock \<Rightarrow>
          (case mutex_lock (shared s) of
             None \<Rightarrow> None
           | Some w \<Rightarrow> Some (s\<lparr>shared := w, pcs := (pcs s)[i := At_call]\<rparr>))
      | At_call \<Rightarrow>
          Some (s\<lparr>shared := refresh_begin (shared s), pcs := (pcs s)[i := In_refresh]\<rparr>)
      | In_refresh \<Rightarrow>
          (case refresh_end (shared s) of
             (ok, w) \<Rightarrow> Some (s\<lparr>shared := w, pcs := (pcs s)[i := At_log ok]\<rparr>))
      | At_log ok \<Rightarrow>
          Some (s\<lparr>shared := refresh_log ok (shared s), pcs := (pcs s)[i := At_unlock]\<rparr>)
      | At_unlock \<Rightarrow>
          Some (s\<lparr>shared := mutex_unlock (shared s), pcs := (pcs s)[i := Done]\<rparr>)
      | Done \<Rightarrow> None)"

text \<open>
  What can happen next: another \<^verbatim>\<open>SIGHUP\<close> arrives and starts an invocation, or the
  scheduler lets invocation \<open>i\<close> run one statement (nothing happens if it cannot move).
\<close>

datatype action = Sighup | Run nat

fun perform :: "action \<Rightarrow> sys \<Rightarrow> sys" where
  "perform Sighup s = s\<lparr>pcs := pcs s @ [At_lock]\<rparr>"
| "perform (Run i) s = (case step i s of None \<Rightarrow> s | Some s' \<Rightarrow> s')"

fun exec :: "action list \<Rightarrow> sys \<Rightarrow> sys" where
  "exec [] s = s"
| "exec (a # as) s = exec as (perform a s)"

text \<open>An invocation holds the mutex from after the lock until the unlock.\<close>

fun holds :: "pc \<Rightarrow> bool" where
  "holds At_lock = False"
| "holds Done = False"
| "holds p = True"

text \<open>
  Reading a trace from the left: \<open>Some b\<close> says that no refresh started while another
  was running, and \<open>b\<close> whether one is running at the end; \<open>None\<close> is an overlap.
\<close>

fun refresh_scan :: "bool option \<Rightarrow> event \<Rightarrow> bool option" where
  "refresh_scan None e = None"
| "refresh_scan (Some b) Refresh_call = (if b then None else Some True)"
| "refresh_scan (Some b) (Refresh_return ok) = (if b then Some False else None)"
| "refresh_scan (Some b) e = Some b"

definition never_overlap :: "event list \<Rightarrow> bool" where
  "never_overlap es = (foldl refresh_scan (Some False) es \<noteq> None)"

section \<open>Vocabulary of the properties\<close>

text \<open>The four actions that \<^verbatim>\<open>signal_start\<close> registers, and the one of \<^verbatim>\<open>signal_thread_start\<close>.\<close>

definition shutdown_action :: sigaction where
  "shutdown_action = \<lparr>sa_handler = Handler Signal_shutdown, sa_mask = {}, sa_flags = 0\<rparr>"

definition ignore_action :: sigaction where
  "ignore_action = \<lparr>sa_handler = SIG_IGN, sa_mask = {}, sa_flags = 0\<rparr>"

definition segfault_action :: sigaction where
  "segfault_action =
     \<lparr>sa_handler = Handler Signal_segfault, sa_mask = {}, sa_flags = SA_RESETHAND\<rparr>"

definition refresh_action :: sigaction where
  "refresh_action = \<lparr>sa_handler = Handler Signal_refresh, sa_mask = {}, sa_flags = 0\<rparr>"

definition status_action :: sigaction where
  "status_action = \<lparr>sa_handler = Handler Signal_status, sa_mask = {}, sa_flags = 0\<rparr>"

definition termination_signals :: "signal list" where
  "termination_signals = [SIGINT, SIGQUIT, SIGTERM]"

definition fatal_signals :: "signal list" where
  "fatal_signals = [SIGSEGV, SIGFPE, SIGBUS, SIGSYS, SIGABRT]"

text \<open>Events of the helper thread, and the calls of the handler itself.\<close>

fun in_helper :: "event \<Rightarrow> bool" where
  "in_helper (In_thread f e) = True"
| "in_helper e = False"

definition own_events :: "event list \<Rightarrow> event list" where
  "own_events es = filter (\<lambda>e. \<not> in_helper e) es"

text \<open>A write of the shutdown status, by whichever thread.\<close>

fun is_status_write :: "event \<Rightarrow> bool" where
  "is_status_write (Status_set v) = True"
| "is_status_write (In_thread f e) = is_status_write e"
| "is_status_write e = False"

text \<open>What happened before the helper thread was launched.\<close>

definition before_launch :: "event list \<Rightarrow> event list" where
  "before_launch es = takeWhile (\<lambda>e. e \<noteq> Thread_launch Status_signal) es"

text \<open>Entries into a handler, and how a delivery ended.\<close>

fun is_enter :: "event \<Rightarrow> bool" where
  "is_enter (Enter h s) = True"
| "is_enter e = False"

fun outcome_world :: "outcome \<Rightarrow> world" where
  "outcome_world (Returned w) = w"
| "outcome_world (Killed s w) = w"
| "outcome_world (Blocked w) = w"

fun killed_by :: "outcome option \<Rightarrow> signal option" where
  "killed_by (Some (Killed s w)) = Some s"
| "killed_by out = None"

fun outcome_events :: "world \<Rightarrow> outcome option \<Rightarrow> event list" where
  "outcome_events w None = []"
| "outcome_events w (Some out) = new_events w (outcome_world out)"

fun outcome_pending :: "outcome option \<Rightarrow> signal set" where
  "outcome_pending None = {}"
| "outcome_pending (Some out) = pending (outcome_world out)"

text \<open>
  The fatal signals that still have a handler, and the worlds in which a crash is
  handled: each fatal signal has the one-shot crash handler or already the default
  disposition, and the signals that occur while the handler logs are fatal ones.
\<close>

definition armed :: "world \<Rightarrow> signal set" where
  "armed w = {x \<in> set fatal_signals. sa_handler (disposition w x) \<noteq> SIG_DFL}"

definition crash_ready :: "world \<Rightarrow> bool" where
  "crash_ready w =
     ((\<forall>x\<in>set fatal_signals.
         disposition w x = segfault_action \<or> sa_handler (disposition w x) = SIG_DFL) \<and>
      snd ` set (raised w) \<subseteq> set fatal_signals)"

text \<open>
  Concurrent reloads: no two invocations hold the mutex, some invocation holds it, some
  invocation is inside the content refresh.
\<close>

definition unique_holder :: "pc list \<Rightarrow> bool" where
  "unique_holder ps =
     (\<forall>i<length ps. \<forall>j<length ps. holds (ps ! i) \<and> holds (ps ! j) \<longrightarrow> i = j)"

definition some_holder :: "pc list \<Rightarrow> bool" where
  "some_holder ps = (\<exists>i<length ps. holds (ps ! i))"

definition in_flight :: "pc list \<Rightarrow> bool" where
  "in_flight ps = (\<exists>i<length ps. ps ! i = In_refresh)"

text \<open>
  The invariant of the interleaved runs that start in \<open>w0\<close>: the mutex is held exactly
  when an invocation is between its lock and its unlock, there is at most one such
  invocation, and the trace since \<open>w0\<close> has no overlapping refresh and ends inside a
  refresh exactly when an invocation is inside one.
\<close>

definition reload_inv :: "world \<Rightarrow> sys \<Rightarrow> bool" where
  "reload_inv w0 s =
     (unique_holder (pcs s) \<and>
      sig_hup_mutex (shared s) = some_holder (pcs s) \<and>
      (\<exists>es. trace (shared s) = trace w0 @ es \<and>
            foldl refresh_scan (Some False) es = Some (in_flight (pcs s))))"

subsection \<open>Concrete worlds\<close>

text \<open>The environment fails the sixth registration call, the \<^verbatim>\<open>sigaction\<close> for \<^verbatim>\<open>SIGPIPE\<close>.\<close>

definition pipe_fail_world :: world where
  "pipe_fail_world = boot_world\<lparr>sys_ret := (\<lambda>k. if k = 5 then - 1 else 0)\<rparr>"

text \<open>A shutdown is in progress.\<close>

definition drained_world :: world where
  "drained_world = boot_world\<lparr>status_level := - 1\<rparr>"

text \<open>The content refresh fails.\<close>

definition stale_world :: world where
  "stale_world = boot_world\<lparr>refresh_ret := (\<lambda>k. False)\<rparr>"

text \<open>No thread can be created.\<close>

definition threadless_world :: world where
  "threadless_world = boot_world\<lparr>launch_ok := False\<rparr>"

text \<open>Another invocation of the reload handler holds the mutex.\<close>

definition locked_world :: world where
  "locked_world = boot_world\<lparr>sig_hup_mutex := True\<rparr>"

text \<open>The process after a successful \<^verbatim>\<open>signal_start\<close>.\<close>

definition ready_world :: world where
  "ready_world = snd (signal_start boot_world)"

text \<open>
  The same, where the logging path of the crash handler faults with \<^verbatim>\<open>SIGFPE\<close>, raises
  \<^verbatim>\<open>SIGFPE\<close>, raises \<^verbatim>\<open>SIGSEGV\<close>, faults with \<^verbatim>\<open>SIGSEGV\<close>.
\<close>

definition fault_world :: world where
  "fault_world = ready_world\<lparr>raised := [(By_fault, SIGFPE)]\<rparr>"

definition raise_world :: world where
  "raise_world = ready_world\<lparr>raised := [(By_raise, SIGFPE)]\<rparr>"

definition same_raise_world :: world where
  "same_raise_world = ready_world\<lparr>raised := [(By_raise, SIGSEGV)]\<rparr>"

definition same_fault_world :: world where
  "same_fault_world = ready_world\<lparr>raised := [(By_fault, SIGSEGV)]\<rparr>"

text \<open>The same, where the \<^verbatim>\<open>sigaction\<close> call of the crash handler fails.\<close>

definition clear_fail_world :: world where
  "clear_fail_world =
     ready_world\<lparr>sys_ret := (\<lambda>k. if k = sys_calls ready_world + 1 then - 1 else 0)\<rparr>"

text \<open>A worker thread after a successful \<^verbatim>\<open>signal_thread_start\<close>.\<close>

definition worker_world :: world where
  "worker_world = snd (signal_thread_start boot_world)"

text \<open>
  Two \<^verbatim>\<open>SIGHUP\<close>s: the first invocation has taken the mutex and is inside the refresh
  when the second arrives and is scheduled.
\<close>

definition second_hup :: "action list" where
  "second_hup = [Sighup, Run 0, Run 0, Sighup, Run 1]"

section \<open>Basic facts\<close>

lemmas signal_defs =
  SIGHUP_def SIGINT_def SIGQUIT_def SIGABRT_def SIGBUS_def SIGFPE_def
  SIGSEGV_def SIGPIPE_def SIGALRM_def SIGTERM_def SIGSYS_def

lemmas action_defs =
  shutdown_action_def ignore_action_def segfault_action_def refresh_action_def
  status_action_def

lemma emit_fields:
  "trace (emit e w) = trace w @ [e]"
  "helper (emit e w) = helper w"
  "helper_delay (emit e w) = helper_delay w"
  "status_level (emit e w) = status_level w"
  "disposition (emit e w) = disposition w"
  "sig_hup_mutex (emit e w) = sig_hup_mutex w"
  "sys_ret (emit e w) = sys_ret w"
  "sys_calls (emit e w) = sys_calls w"
  "refresh_ret (emit e w) = refresh_ret w"
  "refresh_calls (emit e w) = refresh_calls w"
  "raised (emit e w) = raised w"
  "launch_ok (emit e w) = launch_ok w"
  "blocked (emit e w) = blocked w"
  "pending (emit e w) = pending w"
  by (simp_all add: emit_def)

lemma new_events_append: "trace w' = trace w @ es \<Longrightarrow> new_events w w' = es"
  by (simp add: new_events_def)

lemma SA_RESETHAND_nonzero: "SA_RESETHAND \<noteq> 0"
  by (simp add: SA_RESETHAND_def)

lemma SA_RESETHAND_defers: "SA_RESETHAND AND SA_NODEFER = 0"
  by (simp add: SA_RESETHAND_def SA_NODEFER_def)

text \<open>
  For an action without flags and with the empty mask, the kernel's part of a handler
  entry is to block the signal; a handler that does not touch the mask returns with the
  world its body has produced.
\<close>

lemma handler_entry_plain:
  assumes "sa_flags (disposition w s) = 0" "sa_mask (disposition w s) = {}"
  shows "handler_entry h s w = (emit (Enter h s) w)\<lparr>blocked := insert s (blocked w)\<rparr>"
  using assms by (simp add: handler_entry_def emit_def)

lemma handler_entry_segfault:
  assumes "disposition w s = segfault_action"
  shows "handler_entry h s w =
           emit (Enter h s)
             (w\<lparr>disposition := (disposition w)(s := segfault_action\<lparr>sa_handler := SIG_DFL\<rparr>),
                blocked := insert s (blocked w)\<rparr>)"
  using assms
  by (simp add: handler_entry_def segfault_action_def SA_RESETHAND_nonzero SA_RESETHAND_defers)

section \<open>Registration\<close>

lemma less_14_cases:
  "(k::nat) < 14 \<Longrightarrow>
     k = 0 \<or> k = 1 \<or> k = 2 \<or> k = 3 \<or> k = 4 \<or> k = 5 \<or> k = 6 \<or> k = 7
     \<or> k = 8 \<or> k = 9 \<or> k = 10 \<or> k = 11 \<or> k = 12 \<or> k = 13"
  by arith

lemma all_less_14:
  "(\<forall>k<14. P (k::nat)) =
     (P 0 \<and> P 1 \<and> P 2 \<and> P 3 \<and> P 4 \<and> P 5 \<and> P 6 \<and> P 7 \<and> P 8 \<and> P 9 \<and> P 10 \<and> P 11
      \<and> P 12 \<and> P 13)"
  using less_14_cases by fastforce

lemmas start_unfold =
  signal_start_def sigemptyset_def sigaction_def Let_def emit_def log_info_def
  log_options_def next_ret_def new_events_def

text \<open>
  \<^verbatim>\<open>signal_start\<close> makes fourteen registration calls: one \<^verbatim>\<open>sigemptyset\<close> and the
  \<^verbatim>\<open>sigaction\<close>s of each of its four groups.
\<close>

lemma signal_start_true_iff: "fst (signal_start w) = (\<forall>k<14. next_ret w k = 0)"
  unfolding all_less_14
  by (simp add: start_unfold eval_nat_numeral)

lemma signal_start_first_failure:
  assumes "k < 14" "\<forall>j<k. next_ret w j = 0" "next_ret w k \<noteq> 0"
  shows "\<not> fst (signal_start w) \<and>
         sys_calls (snd (signal_start w)) = sys_calls w + k + 1 \<and>
         length (new_events w (snd (signal_start w))) = k + 2 \<and>
         (\<exists>msg. filter is_log (new_events w (snd (signal_start w))) =
                  [Log M_LOG_INFO False msg None] \<and>
                last (new_events w (snd (signal_start w))) = Log M_LOG_INFO False msg None)"
  using less_14_cases [OF assms(1)] assms(2,3)
  apply (elim disjE)
  apply (simp_all add: start_unfold eval_nat_numeral All_less_Suc)
  done

lemma first_failure:
  assumes "\<not> fst (signal_start w)"
  obtains k where "k < 14" "\<forall>j<k. next_ret w j = 0" "next_ret w k \<noteq> 0"
proof -
  from assms have ex: "\<exists>k. k < 14 \<and> next_ret w k \<noteq> 0"
    by (auto simp: signal_start_true_iff)
  define k where "k = (LEAST k. k < 14 \<and> next_ret w k \<noteq> 0)"
  have a: "k < 14 \<and> next_ret w k \<noteq> 0"
    unfolding k_def using ex by (rule LeastI_ex)
  have b: "\<forall>j<k. next_ret w j = 0"
  proof (intro allI impI)
    fix j assume jk: "j < k"
    then have "\<not> (j < 14 \<and> next_ret w j \<noteq> 0)"
      unfolding k_def by (rule not_less_Least)
    with jk a show "next_ret w j = 0" by auto
  qed
  from a b that show thesis by blast
qed

lemma signal_start_success:
  assumes "fst (signal_start w)"
  shows "disposition (snd (signal_start w)) =
           (disposition w)(SIGINT := shutdown_action, SIGQUIT := shutdown_action,
              SIGTERM := shutdown_action, SIGPIPE := ignore_action,
              SIGSEGV := segfault_action, SIGFPE := segfault_action,
              SIGBUS := segfault_action, SIGSYS := segfault_action,
              SIGABRT := segfault_action, SIGHUP := refresh_action)"
    and "sys_ret (snd (signal_start w)) = sys_ret w"
    and "sys_calls (snd (signal_start w)) = sys_calls w + 14"
  using assms unfolding signal_start_true_iff all_less_14
  by (simp_all add: start_unfold eval_nat_numeral action_defs mm_wipe_sigaction_def)

lemma failed_start_table:
  assumes "k < 14" "\<forall>j<k. next_ret w j = 0" "next_ret w k \<noteq> 0"
  shows "(\<forall>s act. Sigaction s act 0 \<in> set (new_events w (snd (signal_start w))) \<longrightarrow>
            disposition (snd (signal_start w)) s = act) \<and>
         (\<forall>s. (\<forall>act. Sigaction s act 0 \<notin> set (new_events w (snd (signal_start w)))) \<longrightarrow>
            disposition (snd (signal_start w)) s = disposition w s)"
  using less_14_cases [OF assms(1)] assms(2,3)
  apply (elim disjE)
  apply (simp_all add: start_unfold eval_nat_numeral All_less_Suc signal_defs)
  done

lemma pipe_failure:
  assumes "\<forall>j<5. next_ret w j = 0" "next_ret w 5 \<noteq> 0"
  shows "\<not> fst (signal_start w) \<and>
         disposition (snd (signal_start w)) =
           (disposition w)(SIGINT := shutdown_action, SIGQUIT := shutdown_action,
              SIGTERM := shutdown_action)"
  using assms
  by (simp add: start_unfold eval_nat_numeral All_less_Suc action_defs mm_wipe_sigaction_def)

lemma boot_start: "fst (signal_start boot_world)"
  by (simp add: signal_start_true_iff next_ret_def boot_world_def)

lemma pipe_fail_rets:
  "\<forall>j<5. next_ret pipe_fail_world j = 0" "next_ret pipe_fail_world 5 \<noteq> 0"
  by (simp_all add: next_ret_def pipe_fail_world_def boot_world_def)

lemma signal_thread_start_success:
  assumes "fst (signal_thread_start w)"
  shows "disposition (snd (signal_thread_start w)) = (disposition w)(SIGALRM := status_action)"
  using assms
  by (simp add: signal_thread_start_def sigemptyset_def sigaction_def Let_def emit_def
        log_info_def log_options_def action_defs mm_wipe_sigaction_def
      split: if_splits)

lemma boot_thread_start: "fst (signal_thread_start boot_world)"
  by (simp add: signal_thread_start_def sigemptyset_def sigaction_def Let_def emit_def
        boot_world_def)

text \<open>
  Claim C4. \<^verbatim>\<open>signal_start\<close> returns true exactly when each of its fourteen registration
  calls returns 0. When the \<open>k\<close>-th call is the first to fail, it returns false, it has
  made exactly \<open>k+1\<close> registration calls (none after the failed one), and the only log
  line it wrote is one informational line, the last thing it did.
\<close>

theorem signal_start_all_or_nothing:
  "(fst (signal_start w) \<longleftrightarrow> (\<forall>k<14. next_ret w k = 0)) \<and>
   (\<forall>k<14. (\<forall>j<k. next_ret w j = 0) \<and> next_ret w k \<noteq> 0 \<longrightarrow>
      \<not> fst (signal_start w) \<and>
      sys_calls (snd (signal_start w)) = sys_calls w + k + 1 \<and>
      length (new_events w (snd (signal_start w))) = k + 2 \<and>
      (\<exists>msg. filter is_log (new_events w (snd (signal_start w))) =
               [Log M_LOG_INFO False msg None] \<and>
             last (new_events w (snd (signal_start w))) = Log M_LOG_INFO False msg None))"
  using signal_start_true_iff [of w] signal_start_first_failure [of _ w]
  by blast

theorem signal_start_all_or_nothing_witness:
  "next_ret pipe_fail_world 4 = 0 \<and> next_ret pipe_fail_world 5 \<noteq> 0 \<and>
   \<not> fst (signal_start pipe_fail_world) \<and>
   sys_calls (snd (signal_start pipe_fail_world)) = 6 \<and>
   fst (signal_start boot_world)"
proof -
  have five: "(5::nat) < 14" by simp
  have "\<not> fst (signal_start pipe_fail_world) \<and>
        sys_calls (snd (signal_start pipe_fail_world)) = sys_calls pipe_fail_world + 5 + 1"
    using signal_start_all_or_nothing [of pipe_fail_world, THEN conjunct2, rule_format, OF five]
      pipe_fail_rets
    by blast
  moreover have "fst (signal_start boot_world)"
    using signal_start_all_or_nothing [of boot_world, THEN conjunct1]
    by (simp add: next_ret_def boot_world_def)
  ultimately show ?thesis
    using pipe_fail_rets by (simp add: pipe_fail_world_def boot_world_def)
qed

text \<open>
  Claim C9. When \<^verbatim>\<open>signal_start\<close> returns false, every \<^verbatim>\<open>sigaction\<close> call that
  succeeded before the failure is still in force at the return: the table holds the
  action it installed, and every other signal has the disposition it had before the
  call. In particular, when the \<^verbatim>\<open>sigaction\<close> for \<^verbatim>\<open>SIGPIPE\<close> is the first call to fail,
  the shutdown handler stays installed on \<^verbatim>\<open>SIGINT\<close>, \<^verbatim>\<open>SIGQUIT\<close> and \<^verbatim>\<open>SIGTERM\<close> and
  nothing else has changed.
\<close>

theorem signal_start_no_rollback:
  "(\<not> fst (signal_start w) \<longrightarrow>
      (\<forall>s act. Sigaction s act 0 \<in> set (new_events w (snd (signal_start w))) \<longrightarrow>
         disposition (snd (signal_start w)) s = act) \<and>
      (\<forall>s. (\<forall>act. Sigaction s act 0 \<notin> set (new_events w (snd (signal_start w)))) \<longrightarrow>
         disposition (snd (signal_start w)) s = disposition w s)) \<and>
   ((\<forall>j<5. next_ret w j = 0) \<and> next_ret w 5 \<noteq> 0 \<longrightarrow>
      \<not> fst (signal_start w) \<and>
      disposition (snd (signal_start w)) =
        (disposition w)(SIGINT := shutdown_action, SIGQUIT := shutdown_action,
           SIGTERM := shutdown_action))"
proof -
  have failed: "(\<forall>s act. Sigaction s act 0 \<in> set (new_events w (snd (signal_start w))) \<longrightarrow>
         disposition (snd (signal_start w)) s = act) \<and>
      (\<forall>s. (\<forall>act. Sigaction s act 0 \<notin> set (new_events w (snd (signal_start w)))) \<longrightarrow>
         disposition (snd (signal_start w)) s = disposition w s)"
    if "\<not> fst (signal_start w)"
  proof -
    from that obtain k where "k < 14" "\<forall>j<k. next_ret w j = 0" "next_ret w k \<noteq> 0"
      by (rule first_failure)
    then show ?thesis by (rule failed_start_table)
  qed
  have pipe: "\<not> fst (signal_start w) \<and>
      disposition (snd (signal_start w)) =
        (disposition w)(SIGINT := shutdown_action, SIGQUIT := shutdown_action,
           SIGTERM := shutdown_action)"
    if "(\<forall>j<5. next_ret w j = 0) \<and> next_ret w 5 \<noteq> 0"
    using that pipe_failure [of w] by blast
  from failed pipe show ?thesis by blast
qed

lemma pipe_fail_events:
  "new_events pipe_fail_world (snd (signal_start pipe_fail_world)) =
     [Sigemptyset 0, Sigaction SIGINT shutdown_action 0, Sigaction SIGQUIT shutdown_action 0,
      Sigaction SIGTERM shutdown_action 0, Sigemptyset 0,
      Sigaction SIGPIPE ignore_action (- 1),
      Log M_LOG_INFO False ''Could not setup the ignore signal handler'' None]"
  by (simp add: start_unfold pipe_fail_world_def boot_world_def action_defs
        mm_wipe_sigaction_def)

theorem signal_start_no_rollback_witness:
  "next_ret pipe_fail_world 4 = 0 \<and> next_ret pipe_fail_world 5 \<noteq> 0 \<and>
   \<not> fst (signal_start pipe_fail_world) \<and>
   Sigaction SIGINT shutdown_action 0
     \<in> set (new_events pipe_fail_world (snd (signal_start pipe_fail_world))) \<and>
   disposition (snd (signal_start pipe_fail_world)) SIGINT = shutdown_action \<and>
   disposition (snd (signal_start pipe_fail_world)) SIGQUIT = shutdown_action \<and>
   disposition (snd (signal_start pipe_fail_world)) SIGTERM = shutdown_action \<and>
   disposition (snd (signal_start pipe_fail_world)) SIGPIPE = mm_wipe_sigaction"
proof -
  have failed: "\<not> fst (signal_start pipe_fail_world) \<and>
      disposition (snd (signal_start pipe_fail_world)) =
        (disposition pipe_fail_world)(SIGINT := shutdown_action, SIGQUIT := shutdown_action,
           SIGTERM := shutdown_action)"
    using signal_start_no_rollback [of pipe_fail_world, THEN conjunct2] pipe_fail_rets
    by blast
  have installed: "Sigaction SIGINT shutdown_action 0
     \<in> set (new_events pipe_fail_world (snd (signal_start pipe_fail_world)))"
    by (simp add: pipe_fail_events)
  from failed installed
  have kept: "disposition (snd (signal_start pipe_fail_world)) SIGINT = shutdown_action"
    using signal_start_no_rollback [of pipe_fail_world, THEN conjunct1] by blast
  from failed kept installed show ?thesis
    using pipe_fail_rets
    by (simp add: signal_defs pipe_fail_world_def boot_world_def)
qed

text \<open>
  Claim C8. A successful \<^verbatim>\<open>signal_start\<close> leaves \<^verbatim>\<open>SIGPIPE\<close> with the action
  \<^verbatim>\<open>SIG_IGN\<close>; and in any world where \<^verbatim>\<open>SIGPIPE\<close> has that action, delivering it any
  number of times returns with the world unchanged: the process is not ended and no log
  line (no event at all) is added.
\<close>

theorem sigpipe_ignored:
  assumes "fst (signal_start w0)"
  shows "disposition (snd (signal_start w0)) SIGPIPE = ignore_action \<and>
         (\<forall>n k. deliver_many (Suc n) SIGPIPE k (snd (signal_start w0)) =
                  Some (Returned (snd (signal_start w0)))) \<and>
         (\<forall>w n k. disposition w SIGPIPE = ignore_action \<longrightarrow>
                  deliver_many (Suc n) SIGPIPE k w = Some (Returned w))"
proof -
  have ign: "deliver_many (Suc n) SIGPIPE k w = Some (Returned w)"
    if "disposition w SIGPIPE = ignore_action" for w n k
    using that by (induction k) (simp_all add: ignore_action_def)
  have d: "disposition (snd (signal_start w0)) SIGPIPE = ignore_action"
    by (simp add: signal_start_success(1) [OF assms] signal_defs)
  from d ign show ?thesis by blast
qed

theorem sigpipe_ignored_witness:
  "fst (signal_start boot_world) \<and>
   disposition ready_world SIGPIPE = ignore_action \<and>
   deliver_many 1 SIGPIPE 3 ready_world = Some (Returned ready_world)"
  using sigpipe_ignored [OF boot_start] boot_start
  by (simp add: ready_world_def)


section \<open>The wake handler\<close>

lemma deliver_status:
  assumes "disposition w s = status_action"
  shows "deliver (Suc n) s w =
           Some (Returned (signal_status s (emit (Enter Signal_status s) w)))"
  using assms
  by (simp add: status_action_def handler_entry_plain signal_status_def status_def
        log_info_def log_options_def emit_def)

text \<open>
  Claim C7. When \<^verbatim>\<open>status()\<close> says that the daemon is running, \<^verbatim>\<open>signal_status\<close> adds
  exactly one event, an informational log line naming the signal; when a shutdown is in
  progress it leaves the world as it is. In both cases the shutdown status is unchanged;
  and once \<^verbatim>\<open>signal_thread_start\<close> has succeeded, every delivery of \<^verbatim>\<open>SIGALRM\<close> runs
  this handler and returns.
\<close>

theorem signal_status_effect:
  "(status w \<longrightarrow>
      new_events w (signal_status s w) =
        [Log M_LOG_INFO False
           ''This worker thread was signaled but the status function doesn't indicate a shutdown is in progress. { signal = %s }''
           (Some s)]) \<and>
   (\<not> status w \<longrightarrow> signal_status s w = w) \<and>
   status_level (signal_status s w) = status_level w \<and>
   (fst (signal_thread_start w0) \<longrightarrow>
      deliver (Suc n) SIGALRM (snd (signal_thread_start w0)) =
        Some (Returned (signal_status SIGALRM
                 (emit (Enter Signal_status SIGALRM) (snd (signal_thread_start w0))))))"
proof -
  have handler: "(status w \<longrightarrow>
      new_events w (signal_status s w) =
        [Log M_LOG_INFO False
           ''This worker thread was signaled but the status function doesn't indicate a shutdown is in progress. { signal = %s }''
           (Some s)]) \<and>
   (\<not> status w \<longrightarrow> signal_status s w = w) \<and>
   status_level (signal_status s w) = status_level w"
    by (simp add: signal_status_def log_info_def log_options_def emit_def new_events_def)
  have "deliver (Suc n) SIGALRM (snd (signal_thread_start w0)) =
        Some (Returned (signal_status SIGALRM
                 (emit (Enter Signal_status SIGALRM) (snd (signal_thread_start w0)))))"
    if "fst (signal_thread_start w0)"
    by (rule deliver_status) (simp add: signal_thread_start_success [OF that])
  with handler show ?thesis by blast
qed

theorem signal_status_effect_witness:
  "status boot_world \<and>
   new_events boot_world (signal_status SIGALRM boot_world) =
     [Log M_LOG_INFO False
        ''This worker thread was signaled but the status function doesn't indicate a shutdown is in progress. { signal = %s }''
        (Some SIGALRM)] \<and>
   \<not> status drained_world \<and>
   signal_status SIGALRM drained_world = drained_world \<and>
   fst (signal_thread_start boot_world) \<and>
   deliver 1 SIGALRM worker_world =
     Some (Returned (signal_status SIGALRM (emit (Enter Signal_status SIGALRM) worker_world)))"
proof -
  have running: "status boot_world"
    by (simp add: status_def boot_world_def)
  have draining: "\<not> status drained_world"
    by (simp add: status_def drained_world_def boot_world_def)
  note a = signal_status_effect [of boot_world SIGALRM boot_world 0]
  note b = signal_status_effect [of drained_world SIGALRM boot_world 0]
  from a b running draining boot_thread_start show ?thesis
    by (simp add: worker_world_def)
qed

section \<open>The reload handler\<close>

lemma signal_refresh_run:
  assumes "\<not> sig_hup_mutex w"
  shows "\<exists>w'. signal_refresh s w = Returned w' \<and> \<not> sig_hup_mutex w' \<and>
           new_events w w' =
             [Mutex_lock, Refresh_call, Refresh_return (refresh_ret w (refresh_calls w)),
              if refresh_ret w (refresh_calls w)
              then Log M_LOG_INFO False ''Disk content refreshed.'' None
              else Log M_LOG_ERROR False
                     ''An error occurred while trying to refresh disk based content.'' None,
              Mutex_unlock]"
  using assms
  by (simp add: signal_refresh_def mutex_lock_def http_content_refresh_def refresh_begin_def
      refresh_end_def refresh_log_def mutex_unlock_def log_error_def log_info_def
      log_options_def emit_def new_events_def Let_def)

lemma signal_refresh_waits: "sig_hup_mutex w \<Longrightarrow> signal_refresh s w = Blocked w"
  by (simp add: signal_refresh_def mutex_lock_def)

text \<open>
  Claim C6. An invocation of \<^verbatim>\<open>signal_refresh\<close> that gets the mutex returns normally
  with the mutex released, whatever the refresh returned. Its events are, in order: the
  lock, the call of \<^verbatim>\<open>http_content_refresh\<close> and its return, one log line, the unlock.
  The log line has error severity when the refresh returned false and is the
  informational line "Disk content refreshed." when it returned true. In no case is
  the process ended: the only other outcome is that the invocation finds the mutex held
  and waits, having changed nothing.
\<close>

theorem signal_refresh_logs_and_releases:
  "(\<not> sig_hup_mutex w \<longrightarrow>
     (\<exists>w'. signal_refresh s w = Returned w' \<and> \<not> sig_hup_mutex w' \<and>
        new_events w w' =
          [Mutex_lock, Refresh_call, Refresh_return (refresh_ret w (refresh_calls w)),
           if refresh_ret w (refresh_calls w)
           then Log M_LOG_INFO False ''Disk content refreshed.'' None
           else Log M_LOG_ERROR False
                  ''An error occurred while trying to refresh disk based content.'' None,
           Mutex_unlock])) \<and>
   (sig_hup_mutex w \<longrightarrow> signal_refresh s w = Blocked w)"
  using signal_refresh_run [of w s] signal_refresh_waits [of w s] by blast

theorem signal_refresh_logs_and_releases_witness:
  "\<not> sig_hup_mutex stale_world \<and>
   new_events stale_world (outcome_world (signal_refresh SIGHUP stale_world)) =
     [Mutex_lock, Refresh_call, Refresh_return False,
      Log M_LOG_ERROR False ''An error occurred while trying to refresh disk based content.'' None,
      Mutex_unlock] \<and>
   \<not> sig_hup_mutex (outcome_world (signal_refresh SIGHUP stale_world)) \<and>
   new_events boot_world (outcome_world (signal_refresh SIGHUP boot_world)) =
     [Mutex_lock, Refresh_call, Refresh_return True,
      Log M_LOG_INFO False ''Disk content refreshed.'' None, Mutex_unlock] \<and>
   sig_hup_mutex locked_world \<and>
   signal_refresh SIGHUP locked_world = Blocked locked_world"
proof -
  have held: "sig_hup_mutex locked_world"
    by (simp add: locked_world_def boot_world_def)
  with signal_refresh_logs_and_releases [of locked_world SIGHUP]
  have c: "signal_refresh SIGHUP locked_world = Blocked locked_world"
    by blast
  have free: "\<not> sig_hup_mutex stale_world" "\<not> sig_hup_mutex boot_world"
    by (simp_all add: stale_world_def boot_world_def)
  have rets: "\<not> refresh_ret stale_world (refresh_calls stale_world)"
    "refresh_ret boot_world (refresh_calls boot_world)"
    by (simp_all add: stale_world_def boot_world_def)
  from signal_refresh_logs_and_releases [of stale_world SIGHUP] free(1) rets(1)
  have a: "new_events stale_world (outcome_world (signal_refresh SIGHUP stale_world)) =
     [Mutex_lock, Refresh_call, Refresh_return False,
      Log M_LOG_ERROR False ''An error occurred while trying to refresh disk based content.'' None,
      Mutex_unlock] \<and>
     \<not> sig_hup_mutex (outcome_world (signal_refresh SIGHUP stale_world))"
    by auto
  from signal_refresh_logs_and_releases [of boot_world SIGHUP] free(2) rets(2)
  have b: "new_events boot_world (outcome_world (signal_refresh SIGHUP boot_world)) =
     [Mutex_lock, Refresh_call, Refresh_return True,
      Log M_LOG_INFO False ''Disk content refreshed.'' None, Mutex_unlock]"
    by auto
  from a b c held free show ?thesis by blast
qed

text \<open>
  Claim C10. \<^verbatim>\<open>signal_refresh\<close> never reads its argument: for any two signal numbers
  the result, hence every effect on the world and its trace, is the same.
\<close>

theorem signal_refresh_ignores_signal: "signal_refresh s1 w = signal_refresh s2 w"
  by (simp add: signal_refresh_def)


section \<open>The shutdown handler\<close>

lemma thread_body_fields:
  "trace (thread_body f w) = trace w @ [In_thread f (Status_set (- 1))]"
  "helper (thread_body f w) = helper w"
  "status_level (thread_body f w) = - 1"
  by (cases f; simp add: status_signal_def status_set_def emit_def Let_def)+

lemma log_options_fields:
  "trace (log_options sev st msg arg w) = trace w @ [Log sev st msg arg]"
  "helper (log_options sev st msg arg w) = helper w"
  "helper_delay (log_options sev st msg arg w) = helper_delay w"
  "launch_ok (log_options sev st msg arg w) = launch_ok w"
  "status_level (log_options sev st msg arg w) = status_level w"
  by (simp_all add: log_options_def emit_fields)

lemma thread_launch_fields:
  "trace (thread_launch f w) = trace w @ [Thread_launch f]"
  "helper (thread_launch f w) = (if launch_ok w then Some (f, helper_delay w) else None)"
  "status_level (thread_launch f w) = status_level w"
  by (simp_all add: thread_launch_def emit_fields)

lemma yield_fields:
  "trace (yield w) =
     (case helper w of
        None \<Rightarrow> trace w
      | Some (f, 0) \<Rightarrow> trace w @ [In_thread f (Status_set (- 1))]
      | Some (f, Suc n) \<Rightarrow> trace w)"
  "helper (yield w) =
     (case helper w of
        None \<Rightarrow> None
      | Some (f, 0) \<Rightarrow> None
      | Some (f, Suc n) \<Rightarrow> Some (f, n))"
  "status_level (yield w) =
     (case helper w of
        None \<Rightarrow> status_level w
      | Some (f, 0) \<Rightarrow> - 1
      | Some (f, Suc n) \<Rightarrow> status_level w)"
  by (simp_all add: yield_def thread_body_fields split: option.split nat.split)

lemma nanosleep_fields:
  "trace (nanosleep t w) =
     (case helper w of
        None \<Rightarrow> trace w @ [Nanosleep (tv_sec t) (tv_nsec t)]
      | Some (f, 0) \<Rightarrow>
          trace w @ [Nanosleep (tv_sec t) (tv_nsec t), In_thread f (Status_set (- 1))]
      | Some (f, Suc n) \<Rightarrow> trace w @ [Nanosleep (tv_sec t) (tv_nsec t)])"
  "helper (nanosleep t w) =
     (case helper w of
        None \<Rightarrow> None
      | Some (f, 0) \<Rightarrow> None
      | Some (f, Suc n) \<Rightarrow> Some (f, n))"
  "status_level (nanosleep t w) =
     (case helper w of
        None \<Rightarrow> status_level w
      | Some (f, 0) \<Rightarrow> - 1
      | Some (f, Suc n) \<Rightarrow> status_level w)"
  by (simp_all add: nanosleep_def yield_fields emit_fields split: option.split nat.split)

lemma queue_signal_fields:
  "trace (queue_signal w) = trace w @ [Queue_signal]"
  "helper (queue_signal w) = helper w"
  "status_level (queue_signal w) = status_level w"
  by (simp_all add: queue_signal_def emit_fields)

lemma net_trigger_fields:
  "trace (net_trigger b w) = trace w @ [Net_trigger b]"
  "helper (net_trigger b w) = helper w"
  "status_level (net_trigger b w) = status_level w"
  by (simp_all add: net_trigger_def emit_fields)

lemma thread_join_fields:
  "trace (thread_join w) =
     (case helper w of
        None \<Rightarrow> trace w @ [Thread_join]
      | Some (f, n) \<Rightarrow> trace w @ [In_thread f (Status_set (- 1)), Thread_join])"
  "helper (thread_join w) = None"
  "status_level (thread_join w) =
     (case helper w of None \<Rightarrow> status_level w | Some (f, n) \<Rightarrow> - 1)"
  by (simp_all add: thread_join_def emit_fields thread_body_fields split: option.split)

lemmas shutdown_fields =
  log_options_fields thread_launch_fields nanosleep_fields queue_signal_fields
  net_trigger_fields thread_join_fields

text \<open>
  The helper runs during one of the four sleeps, or at the join: five schedules.
\<close>

lemma delay_cases:
  "(d::nat) = 0 \<or> d = Suc 0 \<or> d = Suc (Suc 0) \<or> d = Suc (Suc (Suc 0))
     \<or> (\<exists>m. d = Suc (Suc (Suc (Suc m))))"
  by (metis not0_implies_Suc)

lemma signal_shutdown_trace:
  "\<exists>es. trace (signal_shutdown s w) = trace w @ es \<and>
     own_events es =
       [Log M_LOG_CRITICAL False
          ''Signal received. The Magma daemon is attempting a graceful exit. { signal = %s }''
          (Some s),
        Thread_launch Status_signal, Nanosleep 0 100000000, Queue_signal, Nanosleep 1 0,
        Nanosleep 1 0, Nanosleep 1 0, Net_trigger True, Queue_signal, Thread_join] \<and>
     before_launch es =
       [Log M_LOG_CRITICAL False
          ''Signal received. The Magma daemon is attempting a graceful exit. { signal = %s }''
          (Some s)] \<and>
     filter is_status_write es =
       (if launch_ok w then [In_thread Status_signal (Status_set (- 1))] else []) \<and>
     last es = Thread_join"
proof (cases "launch_ok w")
  case True
  with delay_cases [of "helper_delay w"] show ?thesis
    by (elim disjE exE)
       (simp_all add: signal_shutdown_def log_critical_def Let_def shutdown_fields
          own_events_def before_launch_def)
next
  case False
  then show ?thesis
    by (simp add: signal_shutdown_def log_critical_def Let_def shutdown_fields
          own_events_def before_launch_def)
qed

lemma signal_shutdown_status:
  "status_level (signal_shutdown s w) = (if launch_ok w then - 1 else status_level w)"
proof (cases "launch_ok w")
  case True
  with delay_cases [of "helper_delay w"] show ?thesis
    by (elim disjE exE)
       (simp_all add: signal_shutdown_def log_critical_def Let_def shutdown_fields)
next
  case False
  then show ?thesis
    by (simp add: signal_shutdown_def log_critical_def Let_def shutdown_fields)
qed

text \<open>The handler does not touch the signal mask.\<close>

lemma masked_emit: "emit e (w\<lparr>blocked := B\<rparr>) = (emit e w)\<lparr>blocked := B\<rparr>"
  by (simp add: emit_def)

lemma masked_thread_body: "thread_body f (w\<lparr>blocked := B\<rparr>) = (thread_body f w)\<lparr>blocked := B\<rparr>"
  by (cases f) (simp add: status_signal_def status_set_def emit_def Let_def)

lemma masked_yield: "yield (w\<lparr>blocked := B\<rparr>) = (yield w)\<lparr>blocked := B\<rparr>"
proof -
  have "thread_body f (w\<lparr>blocked := B, helper := None\<rparr>) =
          (thread_body f (w\<lparr>helper := None\<rparr>))\<lparr>blocked := B\<rparr>" for f
    by (cases f) (simp add: status_signal_def status_set_def emit_def Let_def)
  then show ?thesis
    by (simp add: yield_def split: option.split nat.split)
qed

lemma masked_steps:
  "log_critical msg arg (w\<lparr>blocked := B\<rparr>) = (log_critical msg arg w)\<lparr>blocked := B\<rparr>"
  "thread_launch f (w\<lparr>blocked := B\<rparr>) = (thread_launch f w)\<lparr>blocked := B\<rparr>"
  "nanosleep t (w\<lparr>blocked := B\<rparr>) = (nanosleep t w)\<lparr>blocked := B\<rparr>"
  "queue_signal (w\<lparr>blocked := B\<rparr>) = (queue_signal w)\<lparr>blocked := B\<rparr>"
  "net_trigger b (w\<lparr>blocked := B\<rparr>) = (net_trigger b w)\<lparr>blocked := B\<rparr>"
  by (simp_all add: log_critical_def log_options_def thread_launch_def nanosleep_def
        queue_signal_def net_trigger_def masked_emit masked_yield)

lemma masked_thread_join: "thread_join (w\<lparr>blocked := B\<rparr>) = (thread_join w)\<lparr>blocked := B\<rparr>"
proof -
  have "thread_body f (w\<lparr>blocked := B, helper := None\<rparr>) =
          (thread_body f (w\<lparr>helper := None\<rparr>))\<lparr>blocked := B\<rparr>" for f
    by (cases f) (simp add: status_signal_def status_set_def emit_def Let_def)
  then show ?thesis
    by (simp add: thread_join_def masked_emit split: option.split)
qed

lemma masked_signal_shutdown:
  "signal_shutdown s (w\<lparr>blocked := B\<rparr>) = (signal_shutdown s w)\<lparr>blocked := B\<rparr>"
  by (simp add: signal_shutdown_def Let_def masked_steps masked_thread_join)

lemma signal_shutdown_blocked: "blocked (signal_shutdown s w) = blocked w"
proof -
  have "signal_shutdown s w = signal_shutdown s (w\<lparr>blocked := blocked w\<rparr>)" by simp
  also have "\<dots> = (signal_shutdown s w)\<lparr>blocked := blocked w\<rparr>"
    by (rule masked_signal_shutdown)
  finally have "blocked (signal_shutdown s w) =
      blocked ((signal_shutdown s w)\<lparr>blocked := blocked w\<rparr>)"
    by simp
  then show ?thesis by simp
qed

lemma deliver_shutdown_action:
  assumes "disposition w s = shutdown_action"
  shows "deliver (Suc n) s w =
           Some (Returned (signal_shutdown s (emit (Enter Signal_shutdown s) w)))"
proof -
  have "(signal_shutdown s (emit (Enter Signal_shutdown s) w))\<lparr>blocked := blocked w\<rparr> =
          signal_shutdown s (emit (Enter Signal_shutdown s) w)"
    using signal_shutdown_blocked [of s "emit (Enter Signal_shutdown s) w"]
    by (simp add: emit_fields)
  then show ?thesis
    using assms
    by (simp add: shutdown_action_def handler_entry_plain masked_signal_shutdown)
qed

lemma deliver_shutdown:
  assumes "fst (signal_start w0)" "s \<in> set termination_signals"
  shows "deliver (Suc n) s (snd (signal_start w0)) =
           Some (Returned (signal_shutdown s
                   (emit (Enter Signal_shutdown s) (snd (signal_start w0)))))"
proof -
  from assms(2) have "disposition (snd (signal_start w0)) s = shutdown_action"
    by (auto simp: signal_start_success(1) [OF assms(1)] termination_signals_def signal_defs)
  then show ?thesis by (rule deliver_shutdown_action)
qed

text \<open>
  Claim C1. Whatever signal \<^verbatim>\<open>signal_shutdown\<close> is invoked with and whenever the helper
  thread gets to run, the calls the handler itself makes are exactly these, in this
  order: the log line announcing the graceful exit (naming the signal), the launch of the
  helper thread on \<^verbatim>\<open>status_signal\<close>, a sleep of 100 milliseconds, the first
  \<^verbatim>\<open>queue_signal\<close>, three sleeps of one second each, \<^verbatim>\<open>net_trigger(true)\<close>, the second
  \<^verbatim>\<open>queue_signal\<close>, and the join of the helper thread, which is the last event before the
  handler returns. After a successful \<^verbatim>\<open>signal_start\<close>, \<^verbatim>\<open>SIGINT\<close>, \<^verbatim>\<open>SIGQUIT\<close> and
  \<^verbatim>\<open>SIGTERM\<close> each run this handler.
\<close>

theorem signal_shutdown_order:
  "own_events (new_events w (signal_shutdown s w)) =
     [Log M_LOG_CRITICAL False
        ''Signal received. The Magma daemon is attempting a graceful exit. { signal = %s }''
        (Some s),
      Thread_launch Status_signal, Nanosleep 0 100000000, Queue_signal, Nanosleep 1 0,
      Nanosleep 1 0, Nanosleep 1 0, Net_trigger True, Queue_signal, Thread_join] \<and>
   last (new_events w (signal_shutdown s w)) = Thread_join \<and>
   (fst (signal_start w0) \<longrightarrow>
      (\<forall>t\<in>set termination_signals. \<forall>n.
         deliver (Suc n) t (snd (signal_start w0)) =
           Some (Returned (signal_shutdown t
                   (emit (Enter Signal_shutdown t) (snd (signal_start w0)))))))"
proof -
  from signal_shutdown_trace [of s w] obtain es where
    es: "trace (signal_shutdown s w) = trace w @ es" and
    own: "own_events es =
       [Log M_LOG_CRITICAL False
          ''Signal received. The Magma daemon is attempting a graceful exit. { signal = %s }''
          (Some s),
        Thread_launch Status_signal, Nanosleep 0 100000000, Queue_signal, Nanosleep 1 0,
        Nanosleep 1 0, Nanosleep 1 0, Net_trigger True, Queue_signal, Thread_join]" and
    lst: "last es = Thread_join"
    by blast
  from es have "new_events w (signal_shutdown s w) = es"
    by (rule new_events_append)
  with own lst deliver_shutdown [of w0] show ?thesis by simp
qed

theorem signal_shutdown_order_witness:
  "fst (signal_start boot_world) \<and>
   deliver 1 SIGTERM ready_world =
     Some (Returned (signal_shutdown SIGTERM (emit (Enter Signal_shutdown SIGTERM) ready_world))) \<and>
   own_events (new_events boot_world (signal_shutdown SIGTERM boot_world)) =
     [Log M_LOG_CRITICAL False
        ''Signal received. The Magma daemon is attempting a graceful exit. { signal = %s }''
        (Some SIGTERM),
      Thread_launch Status_signal, Nanosleep 0 100000000, Queue_signal, Nanosleep 1 0,
      Nanosleep 1 0, Nanosleep 1 0, Net_trigger True, Queue_signal, Thread_join]"
proof -
  have t: "SIGTERM \<in> set termination_signals"
    by (simp add: termination_signals_def)
  note order = signal_shutdown_order [of boot_world SIGTERM boot_world]
  from order boot_start t
  have "deliver (Suc 0) SIGTERM (snd (signal_start boot_world)) =
     Some (Returned (signal_shutdown SIGTERM
             (emit (Enter Signal_shutdown SIGTERM) (snd (signal_start boot_world)))))"
    by blast
  with order boot_start show ?thesis
    by (simp add: ready_world_def)
qed

text \<open>
  Claim C3, as the code has it. On receipt of a termination signal the handler,
  synchronously inside its invocation, logs that a graceful shutdown has begun and then
  launches the helper thread: the log line is the only event before the launch. The
  handler itself never writes the shutdown status. When the helper thread could be
  created, the single write of a run, of the value -1, is made by that thread, running
  \<^verbatim>\<open>status_signal\<close>, after the launch; it has been made when the handler returns, since
  the handler joins the helper. When the thread could not be created, the run does not
  write the status at all.
\<close>

theorem signal_shutdown_status_by_helper:
  "before_launch (new_events w (signal_shutdown s w)) =
     [Log M_LOG_CRITICAL False
        ''Signal received. The Magma daemon is attempting a graceful exit. { signal = %s }''
        (Some s)] \<and>
   filter is_status_write (own_events (new_events w (signal_shutdown s w))) = [] \<and>
   (launch_ok w \<longrightarrow>
      filter is_status_write (new_events w (signal_shutdown s w)) =
        [In_thread Status_signal (Status_set (- 1))] \<and>
      status_level (signal_shutdown s w) = - 1) \<and>
   (\<not> launch_ok w \<longrightarrow>
      filter is_status_write (new_events w (signal_shutdown s w)) = [] \<and>
      status_level (signal_shutdown s w) = status_level w)"
proof -
  from signal_shutdown_trace [of s w] obtain es where
    es: "trace (signal_shutdown s w) = trace w @ es" and
    own: "own_events es =
       [Log M_LOG_CRITICAL False
          ''Signal received. The Magma daemon is attempting a graceful exit. { signal = %s }''
          (Some s),
        Thread_launch Status_signal, Nanosleep 0 100000000, Queue_signal, Nanosleep 1 0,
        Nanosleep 1 0, Nanosleep 1 0, Net_trigger True, Queue_signal, Thread_join]" and
    pre: "before_launch es =
       [Log M_LOG_CRITICAL False
          ''Signal received. The Magma daemon is attempting a graceful exit. { signal = %s }''
          (Some s)]" and
    wr: "filter is_status_write es =
       (if launch_ok w then [In_thread Status_signal (Status_set (- 1))] else [])"
    by blast
  from es have "new_events w (signal_shutdown s w) = es"
    by (rule new_events_append)
  with own pre wr signal_shutdown_status [of s w] show ?thesis by simp
qed

theorem signal_shutdown_status_by_helper_witness:
  "launch_ok boot_world \<and>
   filter is_status_write (new_events boot_world (signal_shutdown SIGTERM boot_world)) =
     [In_thread Status_signal (Status_set (- 1))] \<and>
   status_level (signal_shutdown SIGTERM boot_world) = - 1 \<and>
   \<not> launch_ok threadless_world \<and>
   filter is_status_write
     (new_events threadless_world (signal_shutdown SIGTERM threadless_world)) = [] \<and>
   status_level (signal_shutdown SIGTERM threadless_world) = 0"
proof -
  have ok: "launch_ok boot_world" by (simp add: boot_world_def)
  have no: "\<not> launch_ok threadless_world" "status_level threadless_world = 0"
    by (simp_all add: threadless_world_def boot_world_def)
  note a = signal_shutdown_status_by_helper [of boot_world SIGTERM]
  note b = signal_shutdown_status_by_helper [of threadless_world SIGTERM]
  from a ok have a': "filter is_status_write (new_events boot_world (signal_shutdown SIGTERM boot_world)) =
     [In_thread Status_signal (Status_set (- 1))] \<and>
     status_level (signal_shutdown SIGTERM boot_world) = - 1"
    by blast
  from b no have b': "filter is_status_write
     (new_events threadless_world (signal_shutdown SIGTERM threadless_world)) = [] \<and>
     status_level (signal_shutdown SIGTERM threadless_world) = 0"
    by simp
  from a' b' ok no show ?thesis by blast
qed

text \<open>
  Claim C3 as stated fails: for \<^verbatim>\<open>SIGTERM\<close> at process start, the events before the
  launch of the helper thread are the log line alone, and none of them writes the status.
\<close>

theorem signal_shutdown_publish_counterexample:
  "before_launch (new_events boot_world (signal_shutdown SIGTERM boot_world)) =
     [Log M_LOG_CRITICAL False
        ''Signal received. The Magma daemon is attempting a graceful exit. { signal = %s }''
        (Some SIGTERM)] \<and>
   \<not> list_ex is_status_write
       (before_launch (new_events boot_world (signal_shutdown SIGTERM boot_world))) \<and>
   status boot_world"
proof -
  from signal_shutdown_trace [of SIGTERM boot_world] obtain es where
    es: "trace (signal_shutdown SIGTERM boot_world) = trace boot_world @ es" and
    pre: "before_launch es =
       [Log M_LOG_CRITICAL False
          ''Signal received. The Magma daemon is attempting a graceful exit. { signal = %s }''
          (Some SIGTERM)]"
    by blast
  from es have "new_events boot_world (signal_shutdown SIGTERM boot_world) = es"
    by (rule new_events_append)
  with pre show ?thesis by (simp add: status_def boot_world_def)
qed


section \<open>The crash handler\<close>

lemma abort_never_returns: "abort n w \<noteq> Some (Returned w')"
  by (simp split: option.split outcome.split)

lemma signal_segfault_never_returns: "signal_segfault n s w \<noteq> Some (Returned w')"
  by (simp add: Let_def abort_never_returns del: abort.simps signal_raised.simps
        split: option.split outcome.split list.split prod.split)

lemma start_fatal:
  assumes "fst (signal_start w0)" "x \<in> set fatal_signals"
  shows "disposition (snd (signal_start w0)) x = segfault_action"
  using assms(2)
  by (auto simp: signal_start_success(1) [OF assms(1)] fatal_signals_def signal_defs)

lemmas crash_unfold =
  handler_entry_segfault segfault_action_def log_options_def emit_def new_events_def
  sigemptyset_def sigaction_def next_ret_def Let_def mm_wipe_sigaction_def

text \<open>The signal being handled occurs again, as a fault, while the handler logs.\<close>

lemma same_signal_fault:
  assumes "\<forall>x\<in>set fatal_signals. disposition w x = segfault_action"
    and "s \<in> set fatal_signals" and "raised w = (By_fault, s) # rs"
  shows "killed_by (deliver (Suc n) s w) = Some s \<and>
         outcome_events w (deliver (Suc n) s w) =
           [Enter Signal_segfault s,
            Log M_LOG_CRITICAL True
              ''Memory corruption has been detected. Attempting to print a back trace and exit. { signal = %s }''
              (Some s)]"
proof -
  from assms(1,2) have d: "disposition w s = segfault_action" by blast
  show ?thesis
    using assms(3) d
    by (simp add: crash_unfold)
qed

text \<open>
  The signal being handled is raised again while the handler logs, and the handler's
  \<^verbatim>\<open>sigaction\<close> call succeeds.
\<close>

lemma same_signal_raise:
  assumes "\<forall>x\<in>set fatal_signals. disposition w x = segfault_action"
    and "s \<in> set fatal_signals" and "raised w = (By_raise, s) # rs" and "next_ret w 1 = 0"
  shows "killed_by (deliver (Suc (Suc n)) s w) = Some SIGABRT \<and>
         outcome_events w (deliver (Suc (Suc n)) s w) =
           [Enter Signal_segfault s,
            Log M_LOG_CRITICAL True
              ''Memory corruption has been detected. Attempting to print a back trace and exit. { signal = %s }''
              (Some s),
            Sigemptyset (next_ret w 0),
            Sigaction SIGABRT \<lparr>sa_handler = SIG_DFL, sa_mask = {}, sa_flags = 0\<rparr> 0,
            Abort] \<and>
         outcome_pending (deliver (Suc (Suc n)) s w) = insert s (pending w) - {SIGABRT}"
proof -
  from assms(1,2) have d: "disposition w s = segfault_action" by blast
  show ?thesis
    using assms(3,4) d
    by (simp add: crash_unfold)
qed

text \<open>Nothing occurs while the handler logs, and its \<^verbatim>\<open>sigaction\<close> call succeeds.\<close>

lemma no_signal_raised:
  assumes "\<forall>x\<in>set fatal_signals. disposition w x = segfault_action"
    and "s \<in> set fatal_signals" and "raised w = []" and "next_ret w 1 = 0"
  shows "killed_by (deliver (Suc (Suc n)) s w) = Some SIGABRT \<and>
         outcome_events w (deliver (Suc (Suc n)) s w) =
           [Enter Signal_segfault s,
            Log M_LOG_CRITICAL True
              ''Memory corruption has been detected. Attempting to print a back trace and exit. { signal = %s }''
              (Some s),
            Sigemptyset (next_ret w 0),
            Sigaction SIGABRT \<lparr>sa_handler = SIG_DFL, sa_mask = {}, sa_flags = 0\<rparr> 0,
            Abort]"
proof -
  from assms(1,2) have d: "disposition w s = segfault_action" by blast
  show ?thesis
    using assms(3,4) d
    by (simp add: crash_unfold)
qed

text \<open>
  Another fatal signal, not blocked, occurs while the handler logs, raised or as a
  fault.
\<close>

lemma other_signal_raised:
  assumes "\<forall>x\<in>set fatal_signals. disposition w x = segfault_action"
    and "s \<in> set fatal_signals" and "f \<in> set fatal_signals" and "f \<noteq> s"
    and "f \<notin> blocked w" and "raised w = [(org, f)]" and "next_ret w 1 = 0"
  shows "killed_by (deliver (Suc (Suc (Suc n))) s w) = Some SIGABRT \<and>
         filter is_enter (outcome_events w (deliver (Suc (Suc (Suc n))) s w)) =
           [Enter Signal_segfault s, Enter Signal_segfault f]"
proof -
  from assms(1,2) have d: "disposition w s = segfault_action" by blast
  from assms(1,3) have e: "disposition w f = segfault_action" by blast
  show ?thesis
    using assms(4,5,6,7) d e
    by (simp add: crash_unfold)
qed

lemma finite_armed: "finite (armed w)"
  by (simp add: armed_def)

lemma armed_same: "disposition w' = disposition w \<Longrightarrow> armed w' = armed w"
  by (simp add: armed_def)

lemma armed_reset:
  assumes "disposition w' = (disposition w)(s := a)" "sa_handler a = SIG_DFL"
  shows "armed w' = armed w - {s}"
  using assms by (auto simp: armed_def)

lemma crash_ready_reset:
  assumes "crash_ready w" "disposition w' = (disposition w)(s := a)" "sa_handler a = SIG_DFL"
    "set (raised w') \<subseteq> set (raised w)"
  shows "crash_ready w'"
  using assms by (auto simp: crash_ready_def)

lemma crash_ready_same:
  assumes "crash_ready w" "disposition w' = disposition w" "set (raised w') \<subseteq> set (raised w)"
  shows "crash_ready w'"
  using assms by (auto simp: crash_ready_def)

lemma crash_ready_not_ignored:
  assumes "crash_ready w" "f \<in> set fatal_signals"
  shows "sa_handler (disposition w f) \<noteq> SIG_IGN"
  using assms by (auto simp: crash_ready_def segfault_action_def)

lemma sigaction_disposition:
  "disposition (snd (sigaction s a w)) = disposition w \<or>
   disposition (snd (sigaction s a w)) = (disposition w)(s := a)"
  "raised (snd (sigaction s a w)) = raised w"
  by (simp_all add: sigaction_def Let_def emit_def)

lemma sigemptyset_disposition:
  "disposition (snd (sigemptyset w)) = disposition w"
  "raised (snd (sigemptyset w)) = raised w"
  by (simp_all add: sigemptyset_def Let_def emit_def)

lemma abort_killed:
  assumes "deliver n SIGABRT
             ((emit Abort w)\<lparr>blocked := blocked w - {SIGABRT},
                              pending := pending w - {SIGABRT}\<rparr>) = Some (Killed x w')"
  shows "abort n w = Some (Killed x w')"
  using assms by simp

lemma card_armed: "card (armed w) \<le> 5"
proof -
  have "armed w \<subseteq> set fatal_signals" by (auto simp: armed_def)
  then have "card (armed w) \<le> card (set fatal_signals)"
    by (simp add: card_mono)
  also have "\<dots> \<le> length fatal_signals" by (rule card_length)
  finally show ?thesis by (simp add: fatal_signals_def)
qed

text \<open>
  Each entry into the handler disarms one fatal signal, so \<open>n\<close> nested deliveries are
  enough as soon as \<open>n\<close> exceeds the number of armed signals, and the handler is
  entered at most that many times.
\<close>

lemma crash_terminates:
  assumes "crash_ready w" "s \<in> set fatal_signals" "card (armed w) < n"
  shows "\<exists>x w' es. deliver n s w = Some (Killed x w') \<and> trace w' = trace w @ es \<and>
                    length (filter is_enter es) \<le> card (armed w)"
  using assms
proof (induction n arbitrary: w s)
  case 0
  then show ?case by simp
next
  case (Suc n)
  have abrt: "SIGABRT \<in> set fatal_signals" by (simp add: fatal_signals_def)
  define clear where "clear = mm_wipe_sigaction\<lparr>sa_handler := SIG_DFL, sa_flags := 0\<rparr>"
  have cl: "sa_handler clear = SIG_DFL" by (simp add: clear_def)
  have tail: "\<exists>x w' es.
      (case sigemptyset v of (r1, w3) \<Rightarrow>
         case sigaction SIGABRT clear w3 of (r2, w4) \<Rightarrow> abort n w4) = Some (Killed x w') \<and>
      trace w' = trace v @ es \<and> length (filter is_enter es) \<le> card (armed v)"
    if rv: "crash_ready v" and cv: "card (armed v) < n" for v
  proof -
    define w3 where "w3 = snd (sigemptyset v)"
    define w4 where "w4 = snd (sigaction SIGABRT clear w3)"
    define w5 where "w5 = (emit Abort w4)\<lparr>blocked := blocked w4 - {SIGABRT},
                                            pending := pending w4 - {SIGABRT}\<rparr>"
    have f5: "raised w5 = raised v" "disposition w5 = disposition w4"
      by (simp_all add: w5_def w4_def w3_def sigaction_disposition sigemptyset_disposition
            emit_fields)
    have d4: "disposition w4 = disposition v \<or> disposition w4 = (disposition v)(SIGABRT := clear)"
      using sigaction_disposition(1) [of SIGABRT clear w3]
      by (simp add: w4_def w3_def sigemptyset_disposition)
    have t5: "trace w5 =
        trace v @ [Sigemptyset (fst (sigemptyset v)),
                   Sigaction SIGABRT clear (fst (sigaction SIGABRT clear w3)), Abort]"
      by (simp add: w5_def w4_def w3_def sigaction_def sigemptyset_def Let_def emit_def)
    have r5: "crash_ready w5"
      using d4
    proof
      assume "disposition w4 = disposition v"
      with f5 show ?thesis by (intro crash_ready_same [OF rv]) simp_all
    next
      assume "disposition w4 = (disposition v)(SIGABRT := clear)"
      with f5 cl show ?thesis by (intro crash_ready_reset [OF rv, of _ SIGABRT clear]) simp_all
    qed
    have "armed w5 \<subseteq> armed v"
      using d4
    proof
      assume "disposition w4 = disposition v"
      with f5 have "armed w5 = armed v" by (intro armed_same) simp
      then show ?thesis by simp
    next
      assume "disposition w4 = (disposition v)(SIGABRT := clear)"
      with f5 cl have "armed w5 = armed v - {SIGABRT}"
        by (intro armed_reset [of _ _ _ clear]) simp_all
      then show ?thesis by blast
    qed
    then have le: "card (armed w5) \<le> card (armed v)"
      using finite_armed by (simp add: card_mono)
    with cv have c5: "card (armed w5) < n" by simp
    from Suc.IH [OF r5 abrt c5] obtain x w' es where
      k: "deliver n SIGABRT w5 = Some (Killed x w')" and
      t: "trace w' = trace w5 @ es" and
      e: "length (filter is_enter es) \<le> card (armed w5)"
      by blast
    define es' where "es' = [Sigemptyset (fst (sigemptyset v)),
                   Sigaction SIGABRT clear (fst (sigaction SIGABRT clear w3)), Abort] @ es"
    from k have "abort n w4 = Some (Killed x w')"
      unfolding w5_def by (rule abort_killed)
    then have a: "(case sigemptyset v of (r1, w3) \<Rightarrow>
         case sigaction SIGABRT clear w3 of (r2, w4) \<Rightarrow> abort n w4) = Some (Killed x w')"
      by (simp add: w3_def w4_def case_prod_beta del: abort.simps)
    from t t5 have b: "trace w' = trace v @ es'" by (simp add: es'_def)
    from e le have c: "length (filter is_enter es') \<le> card (armed v)" by (simp add: es'_def)
    from a b c show ?thesis by blast
  qed
  show ?case
  proof (cases "sa_handler (disposition w s) = SIG_DFL")
    case True
    then show ?thesis by simp
  next
    case False
    with Suc.prems(1,2) have d: "disposition w s = segfault_action"
      by (auto simp: crash_ready_def)
    define msg where "msg = ''Memory corruption has been detected. Attempting to print a back trace and exit. { signal = %s }''"
    define w0 where "w0 = handler_entry Signal_segfault s w"
    define w1 where "w1 = log_options M_LOG_CRITICAL True msg (Some s) w0"
    have dw1: "disposition w1 = (disposition w)(s := segfault_action\<lparr>sa_handler := SIG_DFL\<rparr>)"
      and fw1: "raised w1 = raised w"
      and tw1: "trace w1 = trace w @ [Enter Signal_segfault s, Log M_LOG_CRITICAL True msg (Some s)]"
      by (simp_all add: w1_def w0_def handler_entry_segfault [OF d] log_options_def emit_def)
    have r1: "crash_ready w1"
      using crash_ready_reset [OF Suc.prems(1) dw1] fw1 by simp
    have "armed w1 = armed w - {s}"
      using armed_reset [OF dw1] by simp
    moreover have "s \<in> armed w"
      using False Suc.prems(2) by (simp add: armed_def)
    ultimately have less: "card (armed w1) = card (armed w) - 1" and pos: "0 < card (armed w)"
      using finite_armed [of w] by (simp_all add: card_Diff_singleton card_gt_0_iff, blast)
    from less pos Suc.prems(3) have c1: "card (armed w1) < n"
      by arith
    have del: "deliver (Suc n) s w = signal_segfault n s w0"
      by (simp add: d segfault_action_def w0_def Let_def
            del: signal_segfault.simps)
    have "\<exists>x w' es. signal_segfault n s w0 = Some (Killed x w') \<and>
            trace w' = trace w1 @ es \<and> length (filter is_enter es) \<le> card (armed w1)"
    proof (cases "raised w1")
      case Nil
      then have "signal_segfault n s w0 =
          (case sigemptyset w1 of (r1, w3) \<Rightarrow>
             case sigaction SIGABRT clear w3 of (r2, w4) \<Rightarrow> abort n w4)"
        by (simp add: msg_def [symmetric] w1_def [symmetric] clear_def [symmetric] Let_def
              del: abort.simps)
      with tail [OF r1 c1] show ?thesis by (simp del: signal_segfault.simps abort.simps)
    next
      case (Cons p rs)
      obtain org f where p: "p = (org, f)" by (cases p)
      define v where "v = w1\<lparr>raised := rs\<rparr>"
      have f: "f \<in> set fatal_signals"
        using r1 Cons p by (auto simp: crash_ready_def)
      have rv: "crash_ready v"
        unfolding v_def using Cons by (intro crash_ready_same [OF r1]) auto
      have av: "armed v = armed w1"
        unfolding v_def by (intro armed_same) simp
      have tv: "trace v = trace w1" by (simp add: v_def)
      from av c1 have cv: "card (armed v) < n" by simp
      have seg: "signal_segfault n s w0 =
          (case signal_raised n org f v of
             Some (Returned w2) \<Rightarrow>
               (case sigemptyset w2 of (r1, w3) \<Rightarrow>
                  case sigaction SIGABRT clear w3 of (r2, w4) \<Rightarrow> abort n w4)
           | other \<Rightarrow> other)"
        using Cons p
        by (simp add: msg_def [symmetric] w1_def [symmetric] clear_def
              v_def [symmetric] Let_def
              del: abort.simps signal_raised.simps
              split: option.split outcome.split)
      have "\<exists>x w' es. signal_segfault n s w0 = Some (Killed x w') \<and>
            trace w' = trace v @ es \<and> length (filter is_enter es) \<le> card (armed v)"
      proof (cases "f \<in> blocked v")
        case True
        show ?thesis
        proof (cases org)
          case By_fault
          with True have sr: "signal_raised n org f v = Some (Killed f v)" by simp
          have "signal_segfault n s w0 = Some (Killed f v)"
            unfolding seg sr by simp
          then have "signal_segfault n s w0 = Some (Killed f v) \<and>
              trace v = trace v @ [] \<and> length (filter is_enter []) \<le> card (armed v)"
            by simp
          then show ?thesis by blast
        next
          case By_raise
          define v' where "v' = v\<lparr>pending := insert f (pending v)\<rparr>"
          from By_raise True have sr: "signal_raised n org f v = Some (Returned v')"
            by (simp add: v'_def)
          have s': "signal_segfault n s w0 =
              (case sigemptyset v' of (r1, w3) \<Rightarrow>
                  case sigaction SIGABRT clear w3 of (r2, w4) \<Rightarrow> abort n w4)"
            unfolding seg sr by (simp del: abort.simps)
          have rv': "crash_ready v'"
            unfolding v'_def by (intro crash_ready_same [OF rv]) simp_all
          have av': "armed v' = armed v"
            unfolding v'_def by (intro armed_same) simp
          have tv': "trace v' = trace v" by (simp add: v'_def)
          from av' cv have cv': "card (armed v') < n" by simp
          from tail [OF rv' cv'] obtain x w' es where
            "(case sigemptyset v' of (r1, w3) \<Rightarrow>
                case sigaction SIGABRT clear w3 of (r2, w4) \<Rightarrow> abort n w4) = Some (Killed x w')"
            "trace w' = trace v' @ es" "length (filter is_enter es) \<le> card (armed v')"
            by blast
          with s' av' tv' have "signal_segfault n s w0 = Some (Killed x w') \<and>
              trace w' = trace v @ es \<and> length (filter is_enter es) \<le> card (armed v)"
            by simp
          then show ?thesis by blast
        qed
      next
        case False
        have "sa_handler (disposition v f) \<noteq> SIG_IGN"
          using crash_ready_not_ignored [OF rv f] .
        with False have sr: "signal_raised n org f v = deliver n f v" by simp
        from Suc.IH [OF rv f cv] obtain x w' es where
          k: "deliver n f v = Some (Killed x w')" and
          t: "trace w' = trace v @ es" and
          e: "length (filter is_enter es) \<le> card (armed v)"
          by blast
        have "signal_segfault n s w0 = Some (Killed x w')"
          unfolding seg sr k by simp
        with t e show ?thesis by blast
      qed
      with av tv show ?thesis by simp
    qed
    then obtain x w' es where
      k: "signal_segfault n s w0 = Some (Killed x w')" and
      t: "trace w' = trace w1 @ es" and
      e: "length (filter is_enter es) \<le> card (armed w1)"
      by blast
    define es' where "es' = [Enter Signal_segfault s, Log M_LOG_CRITICAL True msg (Some s)] @ es"
    from del k have dk: "deliver (Suc n) s w = Some (Killed x w')" by simp
    from t tw1 have tt: "trace w' = trace w @ es'"
      by (simp add: es'_def)
    from e less pos have ee: "length (filter is_enter es') \<le> card (armed w)"
      by (simp add: es'_def)
    from dk tt ee show ?thesis by blast
  qed
qed

lemma crash_bounded:
  assumes "crash_ready w" "s \<in> set fatal_signals"
  shows "(\<exists>x. killed_by (deliver 6 s w) = Some x) \<and>
         length (filter is_enter (outcome_events w (deliver 6 s w))) \<le> 5"
proof -
  have "card (armed w) < 6" using card_armed [of w] by simp
  from crash_terminates [OF assms this] obtain x w' es where
    k: "deliver 6 s w = Some (Killed x w')" and t: "trace w' = trace w @ es" and
    e: "length (filter is_enter es) \<le> card (armed w)"
    by blast
  from t have "new_events w w' = es" by (rule new_events_append)
  with k e card_armed [of w] show ?thesis by simp
qed

lemma start_crash_ready:
  assumes "fst (signal_start w0)" "snd ` set rs \<subseteq> set fatal_signals"
  shows "crash_ready ((snd (signal_start w0))\<lparr>raised := rs\<rparr>)"
  using start_fatal [OF assms(1)] assms(2) by (simp add: crash_ready_def)

lemma ready_fatal: "\<forall>x\<in>set fatal_signals. disposition ready_world x = segfault_action"
  using start_fatal [OF boot_start] by (simp add: ready_world_def)

lemma ready_rets: "next_ret ready_world 1 = 0"
proof -
  have "sys_ret ready_world = sys_ret boot_world"
    unfolding ready_world_def by (rule signal_start_success(2) [OF boot_start])
  then show ?thesis by (simp add: next_ret_def boot_world_def)
qed

lemma ready_blocked: "blocked ready_world = {}"
  by (simp add: ready_world_def start_unfold boot_world_def split: prod.splits if_splits)


lemma last_entry:
  assumes "disposition v SIGABRT = segfault_action" "raised v = []"
  shows "\<exists>w' es. deliver (Suc (Suc n)) SIGABRT v = Some (Killed SIGABRT w') \<and>
                  trace w' = trace v @ es \<and>
                  filter is_enter es = [Enter Signal_segfault SIGABRT]"
proof (cases "next_ret v 1 = 0")
  case True
  with assms show ?thesis by (simp add: crash_unfold)
next
  case False
  with assms show ?thesis by (simp add: crash_unfold)
qed

lemma killed_by_SomeD: "killed_by out = Some x \<Longrightarrow> \<exists>w'. out = Some (Killed x w')"
  by (cases out rule: killed_by.cases) simp_all

text \<open>
  Nothing occurs while the handler logs, and its \<^verbatim>\<open>sigaction\<close> call fails: \<^verbatim>\<open>SIGABRT\<close>
  still has the crash handler when \<^verbatim>\<open>abort\<close> raises it.
\<close>

lemma sigaction_fails:
  assumes "\<forall>x\<in>set fatal_signals. disposition w x = segfault_action"
    and "s \<in> set fatal_signals" and "s \<noteq> SIGABRT" and "raised w = []"
    and "next_ret w 1 \<noteq> 0"
  shows "killed_by (deliver (Suc (Suc (Suc n))) s w) = Some SIGABRT \<and>
         filter is_enter (outcome_events w (deliver (Suc (Suc (Suc n))) s w)) =
           [Enter Signal_segfault s, Enter Signal_segfault SIGABRT]"
proof -
  from assms(1,2) have d: "disposition w s = segfault_action" by blast
  have "SIGABRT \<in> set fatal_signals" by (simp add: fatal_signals_def)
  with assms(1) have e: "disposition w SIGABRT = segfault_action" by blast
  define w4 where "w4 =
    snd (sigaction SIGABRT (mm_wipe_sigaction\<lparr>sa_handler := SIG_DFL, sa_flags := 0\<rparr>)
      (snd (sigemptyset
        (log_options M_LOG_CRITICAL True
           ''Memory corruption has been detected. Attempting to print a back trace and exit. { signal = %s }''
           (Some s) (handler_entry Signal_segfault s w)))))"
  define w5 where "w5 = (emit Abort w4)\<lparr>blocked := blocked w4 - {SIGABRT},
                                          pending := pending w4 - {SIGABRT}\<rparr>"
  have run: "deliver (Suc (Suc (Suc n))) s w = abort (Suc (Suc n)) w4"
    using d assms(4)
    by (simp add: w4_def segfault_action_def handler_entry_def log_options_def emit_fields
          Let_def case_prod_beta del: abort.simps)
  have d5: "disposition w5 SIGABRT = segfault_action" and r5: "raised w5 = []"
    using d e assms(3,4,5) by (simp_all add: w5_def w4_def crash_unfold)
  have "\<exists>es. trace w5 = trace w @ es \<and> filter is_enter es = [Enter Signal_segfault s]"
    using d by (simp add: w5_def w4_def crash_unfold)
  then obtain es5 where t5: "trace w5 = trace w @ es5"
    and f5: "filter is_enter es5 = [Enter Signal_segfault s]" by blast
  from last_entry [OF d5 r5, of n] obtain w' es where
    k: "deliver (Suc (Suc n)) SIGABRT w5 = Some (Killed SIGABRT w')" and
    t: "trace w' = trace w5 @ es" and
    f: "filter is_enter es = [Enter Signal_segfault SIGABRT]"
    by blast
  from k have a: "abort (Suc (Suc n)) w4 = Some (Killed SIGABRT w')"
    unfolding w5_def by (rule abort_killed)
  from t t5 have "trace w' = trace w @ (es5 @ es)" by simp
  then have "new_events w w' = es5 @ es" by (rule new_events_append)
  with f5 f show ?thesis
    unfolding run a by simp
qed

lemma clear_fail_rets: "next_ret clear_fail_world 1 \<noteq> 0"
  by (simp add: clear_fail_world_def next_ret_def)

text \<open>
  Claim C2, as the code has it. A successful \<^verbatim>\<open>signal_start\<close> installs
  \<^verbatim>\<open>signal_segfault\<close> with \<^verbatim>\<open>SA_RESETHAND\<close> (and without \<^verbatim>\<open>SA_NODEFER\<close>) on each of the
  five fatal signals. In any world with these dispositions, for each fatal signal \<open>s\<close>
  that is delivered:
  \<^item> when \<open>s\<close> occurs again as a fault while the handler for \<open>s\<close> logs, it is blocked and
    ends the process at once, by \<open>s\<close>; the handler has been entered once;
  \<^item> when \<open>s\<close> is raised again while the handler for \<open>s\<close> logs, it is blocked and stays
    pending; the handler is not entered for it and goes on: with its \<^verbatim>\<open>sigaction\<close>
    call succeeding, it restores the default disposition of \<^verbatim>\<open>SIGABRT\<close>, calls
    \<^verbatim>\<open>abort\<close>, and the process is ended by \<^verbatim>\<open>SIGABRT\<close> after this one entry;
  \<^item> when nothing occurs and the handler's \<^verbatim>\<open>sigaction\<close> call succeeds, the handler
    logs, restores the default disposition of \<^verbatim>\<open>SIGABRT\<close> and then calls \<^verbatim>\<open>abort\<close>, in
    this order, and the \<^verbatim>\<open>SIGABRT\<close> that \<^verbatim>\<open>abort\<close> raises ends the process without
    entering the handler again;
  \<^item> when nothing occurs and the handler's \<^verbatim>\<open>sigaction\<close> call fails, \<^verbatim>\<open>SIGABRT\<close> keeps the
    crash handler, and for \<open>s\<close> other than \<^verbatim>\<open>SIGABRT\<close> the \<^verbatim>\<open>SIGABRT\<close> that \<^verbatim>\<open>abort\<close> raises
    enters the handler a second time;
  \<^item> when a different fatal signal \<open>f\<close>, not blocked, occurs while the handler logs
    (raised or as a fault), the handler is entered a second time, for \<open>f\<close>.

  Whatever fatal signals occur while the handler logs and whatever the registration
  calls return, the delivery of a fatal signal ends the process, after at most five
  entries into the handler. In every world and for every signal, \<^verbatim>\<open>signal_segfault\<close>
  does not return normally.
\<close>

theorem crash_handler_one_shot:
  assumes "fst (signal_start w0)"
  shows "(\<forall>x\<in>set fatal_signals. disposition (snd (signal_start w0)) x = segfault_action) \<and>
         (\<forall>w s n. (\<forall>x\<in>set fatal_signals. disposition w x = segfault_action) \<and>
                  s \<in> set fatal_signals \<longrightarrow>
            (\<forall>rs. raised w = (By_fault, s) # rs \<longrightarrow>
               killed_by (deliver (Suc n) s w) = Some s \<and>
               outcome_events w (deliver (Suc n) s w) =
                 [Enter Signal_segfault s,
                  Log M_LOG_CRITICAL True
                    ''Memory corruption has been detected. Attempting to print a back trace and exit. { signal = %s }''
                    (Some s)]) \<and>
            (\<forall>rs. raised w = (By_raise, s) # rs \<and> next_ret w 1 = 0 \<longrightarrow>
               killed_by (deliver (Suc (Suc n)) s w) = Some SIGABRT \<and>
               outcome_events w (deliver (Suc (Suc n)) s w) =
                 [Enter Signal_segfault s,
                  Log M_LOG_CRITICAL True
                    ''Memory corruption has been detected. Attempting to print a back trace and exit. { signal = %s }''
                    (Some s),
                  Sigemptyset (next_ret w 0),
                  Sigaction SIGABRT \<lparr>sa_handler = SIG_DFL, sa_mask = {}, sa_flags = 0\<rparr> 0,
                  Abort] \<and>
               outcome_pending (deliver (Suc (Suc n)) s w) =
                 insert s (pending w) - {SIGABRT}) \<and>
            (raised w = [] \<and> next_ret w 1 = 0 \<longrightarrow>
               killed_by (deliver (Suc (Suc n)) s w) = Some SIGABRT \<and>
               outcome_events w (deliver (Suc (Suc n)) s w) =
                 [Enter Signal_segfault s,
                  Log M_LOG_CRITICAL True
                    ''Memory corruption has been detected. Attempting to print a back trace and exit. { signal = %s }''
                    (Some s),
                  Sigemptyset (next_ret w 0),
                  Sigaction SIGABRT \<lparr>sa_handler = SIG_DFL, sa_mask = {}, sa_flags = 0\<rparr> 0,
                  Abort]) \<and>
            (raised w = [] \<and> s \<noteq> SIGABRT \<and> next_ret w 1 \<noteq> 0 \<longrightarrow>
               killed_by (deliver (Suc (Suc (Suc n))) s w) = Some SIGABRT \<and>
               filter is_enter (outcome_events w (deliver (Suc (Suc (Suc n))) s w)) =
                 [Enter Signal_segfault s, Enter Signal_segfault SIGABRT]) \<and>
            (\<forall>f\<in>set fatal_signals. \<forall>org.
               f \<noteq> s \<and> f \<notin> blocked w \<and> raised w = [(org, f)] \<and> next_ret w 1 = 0 \<longrightarrow>
               killed_by (deliver (Suc (Suc (Suc n))) s w) = Some SIGABRT \<and>
               filter is_enter (outcome_events w (deliver (Suc (Suc (Suc n))) s w)) =
                 [Enter Signal_segfault s, Enter Signal_segfault f])) \<and>
         (\<forall>rs. snd ` set rs \<subseteq> set fatal_signals \<longrightarrow>
            crash_ready ((snd (signal_start w0))\<lparr>raised := rs\<rparr>)) \<and>
         (\<forall>w s. crash_ready w \<and> s \<in> set fatal_signals \<longrightarrow>
            (\<exists>x. killed_by (deliver 6 s w) = Some x) \<and>
            length (filter is_enter (outcome_events w (deliver 6 s w))) \<le> 5) \<and>
         (\<forall>n s w w'. signal_segfault n s w \<noteq> Some (Returned w'))"
proof (intro conjI)
  show "\<forall>x\<in>set fatal_signals. disposition (snd (signal_start w0)) x = segfault_action"
    using start_fatal [OF assms] by blast
next
  show "\<forall>w s n. (\<forall>x\<in>set fatal_signals. disposition w x = segfault_action) \<and>
                  s \<in> set fatal_signals \<longrightarrow>
            (\<forall>rs. raised w = (By_fault, s) # rs \<longrightarrow>
               killed_by (deliver (Suc n) s w) = Some s \<and>
               outcome_events w (deliver (Suc n) s w) =
                 [Enter Signal_segfault s,
                  Log M_LOG_CRITICAL True
                    ''Memory corruption has been detected. Attempting to print a back trace and exit. { signal = %s }''
                    (Some s)]) \<and>
            (\<forall>rs. raised w = (By_raise, s) # rs \<and> next_ret w 1 = 0 \<longrightarrow>
               killed_by (deliver (Suc (Suc n)) s w) = Some SIGABRT \<and>
               outcome_events w (deliver (Suc (Suc n)) s w) =
                 [Enter Signal_segfault s,
                  Log M_LOG_CRITICAL True
                    ''Memory corruption has been detected. Attempting to print a back trace and exit. { signal = %s }''
                    (Some s),
                  Sigemptyset (next_ret w 0),
                  Sigaction SIGABRT \<lparr>sa_handler = SIG_DFL, sa_mask = {}, sa_flags = 0\<rparr> 0,
                  Abort] \<and>
               outcome_pending (deliver (Suc (Suc n)) s w) =
                 insert s (pending w) - {SIGABRT}) \<and>
            (raised w = [] \<and> next_ret w 1 = 0 \<longrightarrow>
               killed_by (deliver (Suc (Suc n)) s w) = Some SIGABRT \<and>
               outcome_events w (deliver (Suc (Suc n)) s w) =
                 [Enter Signal_segfault s,
                  Log M_LOG_CRITICAL True
                    ''Memory corruption has been detected. Attempting to print a back trace and exit. { signal = %s }''
                    (Some s),
                  Sigemptyset (next_ret w 0),
                  Sigaction SIGABRT \<lparr>sa_handler = SIG_DFL, sa_mask = {}, sa_flags = 0\<rparr> 0,
                  Abort]) \<and>
            (raised w = [] \<and> s \<noteq> SIGABRT \<and> next_ret w 1 \<noteq> 0 \<longrightarrow>
               killed_by (deliver (Suc (Suc (Suc n))) s w) = Some SIGABRT \<and>
               filter is_enter (outcome_events w (deliver (Suc (Suc (Suc n))) s w)) =
                 [Enter Signal_segfault s, Enter Signal_segfault SIGABRT]) \<and>
            (\<forall>f\<in>set fatal_signals. \<forall>org.
               f \<noteq> s \<and> f \<notin> blocked w \<and> raised w = [(org, f)] \<and> next_ret w 1 = 0 \<longrightarrow>
               killed_by (deliver (Suc (Suc (Suc n))) s w) = Some SIGABRT \<and>
               filter is_enter (outcome_events w (deliver (Suc (Suc (Suc n))) s w)) =
                 [Enter Signal_segfault s, Enter Signal_segfault f])"
  proof (intro allI impI, elim conjE, intro conjI allI ballI impI)
    fix w :: world and s n rs
    assume d: "\<forall>x\<in>set fatal_signals. disposition w x = segfault_action"
      and s: "s \<in> set fatal_signals" and r: "raised w = (By_fault, s) # rs"
    note t = same_signal_fault [OF d s r, of n]
    from t show "killed_by (deliver (Suc n) s w) = Some s" by (rule conjunct1)
    from t show "outcome_events w (deliver (Suc n) s w) =
                 [Enter Signal_segfault s,
                  Log M_LOG_CRITICAL True
                    ''Memory corruption has been detected. Attempting to print a back trace and exit. { signal = %s }''
                    (Some s)]" by (rule conjunct2)
  next
    fix w :: world and s n rs
    assume d: "\<forall>x\<in>set fatal_signals. disposition w x = segfault_action"
      and s: "s \<in> set fatal_signals"
      and r: "raised w = (By_raise, s) # rs \<and> next_ret w 1 = 0"
    note t = same_signal_raise [OF d s conjunct1 [OF r] conjunct2 [OF r], of n]
    from t show "killed_by (deliver (Suc (Suc n)) s w) = Some SIGABRT" by (rule conjunct1)
    from t show "outcome_events w (deliver (Suc (Suc n)) s w) =
                 [Enter Signal_segfault s,
                  Log M_LOG_CRITICAL True
                    ''Memory corruption has been detected. Attempting to print a back trace and exit. { signal = %s }''
                    (Some s),
                  Sigemptyset (next_ret w 0),
                  Sigaction SIGABRT \<lparr>sa_handler = SIG_DFL, sa_mask = {}, sa_flags = 0\<rparr> 0,
                  Abort]" by (rule conjunct2 [THEN conjunct1])
    from t show "outcome_pending (deliver (Suc (Suc n)) s w) =
                 insert s (pending w) - {SIGABRT}" by (rule conjunct2 [THEN conjunct2])
  next
    fix w :: world and s n
    assume d: "\<forall>x\<in>set fatal_signals. disposition w x = segfault_action"
      and s: "s \<in> set fatal_signals"
      and r: "raised w = [] \<and> next_ret w 1 = 0"
    note t = no_signal_raised [OF d s conjunct1 [OF r] conjunct2 [OF r], of n]
    from t show "killed_by (deliver (Suc (Suc n)) s w) = Some SIGABRT" by (rule conjunct1)
    from t show "outcome_events w (deliver (Suc (Suc n)) s w) =
                 [Enter Signal_segfault s,
                  Log M_LOG_CRITICAL True
                    ''Memory corruption has been detected. Attempting to print a back trace and exit. { signal = %s }''
                    (Some s),
                  Sigemptyset (next_ret w 0),
                  Sigaction SIGABRT \<lparr>sa_handler = SIG_DFL, sa_mask = {}, sa_flags = 0\<rparr> 0,
                  Abort]" by (rule conjunct2)
  next
    fix w :: world and s n
    assume d: "\<forall>x\<in>set fatal_signals. disposition w x = segfault_action"
      and s: "s \<in> set fatal_signals"
      and r: "raised w = [] \<and> s \<noteq> SIGABRT \<and> next_ret w 1 \<noteq> 0"
    from r have r1: "raised w = []" and r2: "s \<noteq> SIGABRT" and r3: "next_ret w 1 \<noteq> 0"
      by blast+
    note t = sigaction_fails [OF d s r2 r1 r3, of n]
    from t show "killed_by (deliver (Suc (Suc (Suc n))) s w) = Some SIGABRT" by (rule conjunct1)
    from t show "filter is_enter (outcome_events w (deliver (Suc (Suc (Suc n))) s w)) =
                 [Enter Signal_segfault s, Enter Signal_segfault SIGABRT]" by (rule conjunct2)
  next
    fix w :: world and s n f org
    assume d: "\<forall>x\<in>set fatal_signals. disposition w x = segfault_action"
      and s: "s \<in> set fatal_signals" and f: "f \<in> set fatal_signals"
      and r: "f \<noteq> s \<and> f \<notin> blocked w \<and> raised w = [(org, f)] \<and> next_ret w 1 = 0"
    from r have r1: "f \<noteq> s" and r2: "f \<notin> blocked w" and r3: "raised w = [(org, f)]"
      and r4: "next_ret w 1 = 0" by blast+
    note t = other_signal_raised [OF d s f r1 r2 r3 r4, of n]
    from t show "killed_by (deliver (Suc (Suc (Suc n))) s w) = Some SIGABRT" by (rule conjunct1)
    from t show "filter is_enter (outcome_events w (deliver (Suc (Suc (Suc n))) s w)) =
                 [Enter Signal_segfault s, Enter Signal_segfault f]" by (rule conjunct2)
  qed
next
  show "\<forall>rs. snd ` set rs \<subseteq> set fatal_signals \<longrightarrow>
            crash_ready ((snd (signal_start w0))\<lparr>raised := rs\<rparr>)"
    using start_crash_ready [OF assms] by blast
next
  show "\<forall>w s. crash_ready w \<and> s \<in> set fatal_signals \<longrightarrow>
            (\<exists>x. killed_by (deliver 6 s w) = Some x) \<and>
            length (filter is_enter (outcome_events w (deliver 6 s w))) \<le> 5"
    using crash_bounded by blast
next
  show "\<forall>n s w w'. signal_segfault n s w \<noteq> Some (Returned w')"
    using signal_segfault_never_returns by blast
qed

theorem crash_handler_one_shot_witness:
  "fst (signal_start boot_world) \<and>
   disposition ready_world SIGSEGV = segfault_action \<and>
   raised same_fault_world = [(By_fault, SIGSEGV)] \<and>
   killed_by (deliver 1 SIGSEGV same_fault_world) = Some SIGSEGV \<and>
   raised same_raise_world = [(By_raise, SIGSEGV)] \<and>
   next_ret same_raise_world 1 = 0 \<and>
   killed_by (deliver 2 SIGSEGV same_raise_world) = Some SIGABRT \<and>
   filter is_enter (outcome_events same_raise_world (deliver 2 SIGSEGV same_raise_world)) =
     [Enter Signal_segfault SIGSEGV] \<and>
   outcome_pending (deliver 2 SIGSEGV same_raise_world) = {SIGSEGV} \<and>
   raised ready_world = [] \<and>
   killed_by (deliver 2 SIGSEGV ready_world) = Some SIGABRT \<and>
   filter is_enter (outcome_events ready_world (deliver 2 SIGSEGV ready_world)) =
     [Enter Signal_segfault SIGSEGV] \<and>
   raised clear_fail_world = [] \<and>
   next_ret clear_fail_world 1 \<noteq> 0 \<and>
   filter is_enter (outcome_events clear_fail_world (deliver 3 SIGSEGV clear_fail_world)) =
     [Enter Signal_segfault SIGSEGV, Enter Signal_segfault SIGABRT] \<and>
   raised raise_world = [(By_raise, SIGFPE)] \<and>
   SIGFPE \<notin> blocked raise_world \<and>
   killed_by (deliver 3 SIGSEGV raise_world) = Some SIGABRT \<and>
   crash_ready fault_world \<and>
   length (filter is_enter (outcome_events fault_world (deliver 6 SIGSEGV fault_world))) \<le> 5"
proof -
  note t = crash_handler_one_shot [OF boot_start]
  note worlds = same_fault_world_def same_raise_world_def raise_world_def fault_world_def
  have segv: "SIGSEGV \<in> set fatal_signals" and fpe: "SIGFPE \<in> set fatal_signals"
    and ne: "SIGFPE \<noteq> SIGSEGV" "SIGSEGV \<noteq> SIGABRT"
    by (simp_all add: fatal_signals_def signal_defs)
  have r0: "raised ready_world = []" and p0: "pending ready_world = {}"
    by (simp_all add: ready_world_def start_unfold boot_world_def split: prod.splits if_splits)
  have disp: "\<forall>x\<in>set fatal_signals. disposition same_fault_world x = segfault_action"
    "\<forall>x\<in>set fatal_signals. disposition same_raise_world x = segfault_action"
    "\<forall>x\<in>set fatal_signals. disposition raise_world x = segfault_action"
    using ready_fatal by (simp_all add: worlds)
  have rs: "raised same_fault_world = (By_fault, SIGSEGV) # []"
    "raised same_raise_world = (By_raise, SIGSEGV) # []"
    "raised raise_world = [(By_raise, SIGFPE)]"
    by (simp_all add: worlds)
  have rets: "next_ret same_raise_world 1 = 0" "next_ret raise_world 1 = 0"
    using ready_rets by (simp_all add: worlds next_ret_def)
  have unbl: "SIGFPE \<notin> blocked raise_world"
    using ready_blocked by (simp add: worlds)
  have pend: "pending same_raise_world = {}"
    using p0 by (simp add: worlds)
  have "snd ` set [(By_fault, SIGFPE)] \<subseteq> set fatal_signals" using fpe by simp
  with t have cr: "crash_ready fault_world"
    unfolding fault_world_def ready_world_def by blast
  from t segv have a: "disposition ready_world SIGSEGV = segfault_action"
    by (simp add: ready_world_def)
  from t [THEN conjunct2, THEN conjunct1, rule_format, of same_fault_world SIGSEGV 0]
    disp(1) segv rs(1)
  have b: "killed_by (deliver (Suc 0) SIGSEGV same_fault_world) = Some SIGSEGV"
    by blast
  from t [THEN conjunct2, THEN conjunct1, rule_format, of same_raise_world SIGSEGV 0]
    disp(2) segv rs(2) rets(1)
  have c: "killed_by (deliver (Suc (Suc 0)) SIGSEGV same_raise_world) = Some SIGABRT \<and>
      outcome_events same_raise_world (deliver (Suc (Suc 0)) SIGSEGV same_raise_world) =
                 [Enter Signal_segfault SIGSEGV,
                  Log M_LOG_CRITICAL True
                    ''Memory corruption has been detected. Attempting to print a back trace and exit. { signal = %s }''
                    (Some SIGSEGV),
                  Sigemptyset (next_ret same_raise_world 0),
                  Sigaction SIGABRT \<lparr>sa_handler = SIG_DFL, sa_mask = {}, sa_flags = 0\<rparr> 0,
                  Abort] \<and>
      outcome_pending (deliver (Suc (Suc 0)) SIGSEGV same_raise_world) =
        insert SIGSEGV (pending same_raise_world) - {SIGABRT}"
    by blast
  from t [THEN conjunct2, THEN conjunct1, rule_format, of ready_world SIGSEGV 0]
    ready_fatal segv r0 ready_rets
  have d: "killed_by (deliver (Suc (Suc 0)) SIGSEGV ready_world) = Some SIGABRT \<and>
      outcome_events ready_world (deliver (Suc (Suc 0)) SIGSEGV ready_world) =
                 [Enter Signal_segfault SIGSEGV,
                  Log M_LOG_CRITICAL True
                    ''Memory corruption has been detected. Attempting to print a back trace and exit. { signal = %s }''
                    (Some SIGSEGV),
                  Sigemptyset (next_ret ready_world 0),
                  Sigaction SIGABRT \<lparr>sa_handler = SIG_DFL, sa_mask = {}, sa_flags = 0\<rparr> 0,
                  Abort]"
    by blast
  have cf: "\<forall>x\<in>set fatal_signals. disposition clear_fail_world x = segfault_action"
    "raised clear_fail_world = []"
    using ready_fatal r0 by (simp_all add: clear_fail_world_def)
  from t [THEN conjunct2, THEN conjunct1, rule_format, of clear_fail_world SIGSEGV 0]
    cf segv ne(2) clear_fail_rets
  have h: "filter is_enter (outcome_events clear_fail_world
             (deliver (Suc (Suc (Suc 0))) SIGSEGV clear_fail_world)) =
           [Enter Signal_segfault SIGSEGV, Enter Signal_segfault SIGABRT]"
    by blast
  from t [THEN conjunct2, THEN conjunct1, rule_format, of raise_world SIGSEGV 0]
    disp(3) segv fpe ne(1) unbl rs(3) rets(2)
  have e: "killed_by (deliver (Suc (Suc (Suc 0))) SIGSEGV raise_world) = Some SIGABRT"
    by blast
  from t cr segv
  have g: "length (filter is_enter (outcome_events fault_world (deliver 6 SIGSEGV fault_world))) \<le> 5"
    by blast
  have one: "(1::nat) = Suc 0" and two: "(2::nat) = Suc (Suc 0)"
    and three: "(3::nat) = Suc (Suc (Suc 0))" by simp_all
  from c pend ne(2)
  have c': "outcome_pending (deliver (Suc (Suc 0)) SIGSEGV same_raise_world) = {SIGSEGV}"
    by simp
  from a b c c' d e g h cf(2) clear_fail_rets cr rs r0 rets unbl boot_start show ?thesis
    unfolding one two three by simp
qed

text \<open>
  Claim C2 as stated fails: after a successful \<^verbatim>\<open>signal_start\<close>, when \<^verbatim>\<open>SIGFPE\<close>
  occurs while the handler for \<^verbatim>\<open>SIGSEGV\<close> logs, as a fault or raised by the code, the
  handler is entered again.
\<close>

theorem crash_handler_reentry_counterexample:
  "fst (signal_start boot_world) \<and>
   raised fault_world = [(By_fault, SIGFPE)] \<and>
   filter is_enter (outcome_events fault_world (deliver 3 SIGSEGV fault_world)) =
     [Enter Signal_segfault SIGSEGV, Enter Signal_segfault SIGFPE] \<and>
   raised raise_world = [(By_raise, SIGFPE)] \<and>
   filter is_enter (outcome_events raise_world (deliver 3 SIGSEGV raise_world)) =
     [Enter Signal_segfault SIGSEGV, Enter Signal_segfault SIGFPE]"
proof -
  have d: "\<forall>x\<in>set fatal_signals. disposition fault_world x = segfault_action"
    "\<forall>x\<in>set fatal_signals. disposition raise_world x = segfault_action"
    using ready_fatal by (simp_all add: fault_world_def raise_world_def)
  have r: "next_ret fault_world 1 = 0" "next_ret raise_world 1 = 0"
    using ready_rets by (simp_all add: fault_world_def raise_world_def next_ret_def)
  have m: "SIGSEGV \<in> set fatal_signals" "SIGFPE \<in> set fatal_signals" "SIGFPE \<noteq> SIGSEGV"
    by (simp_all add: fatal_signals_def signal_defs)
  have u: "SIGFPE \<notin> blocked fault_world" "SIGFPE \<notin> blocked raise_world"
    using ready_blocked by (simp_all add: fault_world_def raise_world_def)
  have f: "raised fault_world = [(By_fault, SIGFPE)]" "raised raise_world = [(By_raise, SIGFPE)]"
    by (simp_all add: fault_world_def raise_world_def)
  have three: "(3::nat) = Suc (Suc (Suc 0))" by simp
  from other_signal_raised [OF d(1) m u(1) f(1) r(1), of 0]
    other_signal_raised [OF d(2) m u(2) f(2) r(2), of 0] f boot_start
  show ?thesis
    unfolding three by blast
qed


section \<open>Concurrent reloads are serialized\<close>

lemma mutex_lock_fields:
  assumes "mutex_lock w = Some w'"
  shows "\<not> sig_hup_mutex w" "sig_hup_mutex w'" "trace w' = trace w @ [Mutex_lock]"
  using assms by (auto simp: mutex_lock_def emit_fields split: if_splits)

lemma mutex_unlock_fields:
  "\<not> sig_hup_mutex (mutex_unlock w)" "trace (mutex_unlock w) = trace w @ [Mutex_unlock]"
  by (simp_all add: mutex_unlock_def emit_fields)

lemma refresh_begin_fields:
  "sig_hup_mutex (refresh_begin w) = sig_hup_mutex w"
  "trace (refresh_begin w) = trace w @ [Refresh_call]"
  by (simp_all add: refresh_begin_def emit_fields)

lemma refresh_end_fields:
  "sig_hup_mutex (snd (refresh_end w)) = sig_hup_mutex w"
  "trace (snd (refresh_end w)) = trace w @ [Refresh_return (fst (refresh_end w))]"
  by (simp_all add: refresh_end_def emit_fields Let_def)

lemma refresh_log_fields:
  "sig_hup_mutex (refresh_log ok w) = sig_hup_mutex w"
  "\<exists>sev msg. trace (refresh_log ok w) = trace w @ [Log sev False msg None]"
  by (simp_all add: refresh_log_def log_error_def log_info_def log_options_def emit_fields)

lemma keep_holder:
  assumes "i < length ps" "holds p = holds (ps ! i)"
  shows "unique_holder (ps[i := p]) = unique_holder ps"
    and "some_holder (ps[i := p]) = some_holder ps"
  using assms
  unfolding unique_holder_def some_holder_def
  by (auto simp: nth_list_update)

lemma acquire_holder:
  assumes "i < length ps" "\<not> some_holder ps" "holds p"
  shows "unique_holder (ps[i := p])" and "some_holder (ps[i := p])"
  using assms
  unfolding unique_holder_def some_holder_def
  by (auto simp: nth_list_update split: if_splits)

lemma release_holder:
  assumes "i < length ps" "unique_holder ps" "holds (ps ! i)" "\<not> holds p"
  shows "unique_holder (ps[i := p])" and "\<not> some_holder (ps[i := p])"
  using assms
  unfolding unique_holder_def some_holder_def
  by (auto simp: nth_list_update split: if_splits)

lemma keep_in_flight:
  assumes "i < length ps" "ps ! i \<noteq> In_refresh" "p \<noteq> In_refresh"
  shows "in_flight (ps[i := p]) = in_flight ps"
  using assms unfolding in_flight_def
  by (auto simp: nth_list_update split: if_splits)

lemma start_in_flight:
  assumes "i < length ps" "unique_holder ps" "holds (ps ! i)" "ps ! i \<noteq> In_refresh"
  shows "\<not> in_flight ps" and "in_flight (ps[i := In_refresh])"
proof -
  show "\<not> in_flight ps"
  proof
    assume "in_flight ps"
    then obtain j where j: "j < length ps" "ps ! j = In_refresh"
      by (auto simp: in_flight_def)
    with assms have "j = i" by (auto simp: unique_holder_def)
    with j assms(4) show False by simp
  qed
  show "in_flight (ps[i := In_refresh])"
    using assms(1) by (auto simp: in_flight_def)
qed

lemma end_in_flight:
  assumes "i < length ps" "unique_holder ps" "ps ! i = In_refresh" "p \<noteq> In_refresh"
  shows "in_flight ps" and "\<not> in_flight (ps[i := p])"
proof -
  show "in_flight ps" using assms(1,3) by (auto simp: in_flight_def)
  show "\<not> in_flight (ps[i := p])"
  proof
    assume "in_flight (ps[i := p])"
    then obtain j where j: "j < length ps" "ps[i := p] ! j = In_refresh"
      by (auto simp: in_flight_def)
    with assms(4) have ne: "j \<noteq> i" by (auto simp: nth_list_update split: if_splits)
    with j have "ps ! j = In_refresh" by simp
    with assms(1,2,3) j(1) have "j = i" by (auto simp: unique_holder_def)
    with ne show False by simp
  qed
qed

lemma arrive_pcs:
  "unique_holder (ps @ [At_lock]) = unique_holder ps"
  "some_holder (ps @ [At_lock]) = some_holder ps"
  "in_flight (ps @ [At_lock]) = in_flight ps"
  unfolding unique_holder_def some_holder_def in_flight_def
  by (auto simp: nth_append less_Suc_eq)

lemma reload_inv_init: "\<not> sig_hup_mutex w0 \<Longrightarrow> reload_inv w0 \<lparr>shared = w0, pcs = []\<rparr>"
  by (simp add: reload_inv_def unique_holder_def some_holder_def in_flight_def)

lemma reload_inv_sighup:
  assumes "reload_inv w0 s"
  shows "reload_inv w0 (perform Sighup s)"
  using assms
  by (simp add: reload_inv_def arrive_pcs)

lemma reload_inv_step:
  assumes inv: "reload_inv w0 s" and st: "step i s = Some s'"
  shows "reload_inv w0 s'"
proof -
  from st have i: "i < length (pcs s)"
    by (auto simp: step_def split: if_splits)
  from inv obtain es where
    u: "unique_holder (pcs s)" and
    m: "sig_hup_mutex (shared s) = some_holder (pcs s)" and
    t: "trace (shared s) = trace w0 @ es" and
    f: "foldl refresh_scan (Some False) es = Some (in_flight (pcs s))"
    by (auto simp: reload_inv_def)
  show ?thesis
  proof (cases "pcs s ! i")
    case At_lock
    with st i obtain w where w: "mutex_lock (shared s) = Some w"
      and s': "s' = s\<lparr>shared := w, pcs := (pcs s)[i := At_call]\<rparr>"
      by (auto simp: step_def split: option.splits)
    from mutex_lock_fields [OF w] m have free: "\<not> some_holder (pcs s)" by simp
    have "in_flight ((pcs s)[i := At_call]) = in_flight (pcs s)"
      using i At_lock by (simp add: keep_in_flight)
    then show ?thesis
      using acquire_holder [OF i free, of At_call] mutex_lock_fields [OF w] t f
      by (simp add: reload_inv_def s')
  next
    case At_call
    with st i have s': "s' = s\<lparr>shared := refresh_begin (shared s), pcs := (pcs s)[i := In_refresh]\<rparr>"
      by (simp add: step_def)
    have h: "holds (pcs s ! i)" "pcs s ! i \<noteq> In_refresh" using At_call by simp_all
    show ?thesis
      using keep_holder [OF i, of In_refresh] start_in_flight [OF i u h] h u m t f
      by (simp add: reload_inv_def s' refresh_begin_fields)
  next
    case In_refresh
    with st i have s': "s' = s\<lparr>shared := snd (refresh_end (shared s)),
        pcs := (pcs s)[i := At_log (fst (refresh_end (shared s)))]\<rparr>"
      by (simp add: step_def split: prod.splits)
    have h: "holds (pcs s ! i)" using In_refresh by simp
    show ?thesis
      using keep_holder [OF i, of "At_log (fst (refresh_end (shared s)))"]
        end_in_flight [OF i u In_refresh, of "At_log (fst (refresh_end (shared s)))"] h u m t f
      by (simp add: reload_inv_def s' refresh_end_fields)
  next
    case (At_log ok)
    with st i have s': "s' = s\<lparr>shared := refresh_log ok (shared s), pcs := (pcs s)[i := At_unlock]\<rparr>"
      by (simp add: step_def)
    obtain sev msg where l: "trace (refresh_log ok (shared s)) = trace (shared s) @ [Log sev False msg None]"
      using refresh_log_fields(2) by blast
    have "in_flight ((pcs s)[i := At_unlock]) = in_flight (pcs s)"
      using i At_log by (simp add: keep_in_flight)
    then show ?thesis
      using keep_holder [OF i, of At_unlock] At_log u m t f l
      by (simp add: reload_inv_def s' refresh_log_fields(1))
  next
    case At_unlock
    with st i have s': "s' = s\<lparr>shared := mutex_unlock (shared s), pcs := (pcs s)[i := Done]\<rparr>"
      by (simp add: step_def)
    have h: "holds (pcs s ! i)" using At_unlock by simp
    have "in_flight ((pcs s)[i := Done]) = in_flight (pcs s)"
      using i At_unlock by (simp add: keep_in_flight)
    then show ?thesis
      using release_holder [OF i u h, of Done] t f
      by (simp add: reload_inv_def s' mutex_unlock_fields)
  next
    case Done
    then show ?thesis using st i by (simp add: step_def)
  qed
qed

lemma reload_inv_perform: "reload_inv w0 s \<Longrightarrow> reload_inv w0 (perform a s)"
proof (cases a)
  case Sighup
  assume "reload_inv w0 s"
  with Sighup show ?thesis by (simp only: reload_inv_sighup)
next
  case (Run i)
  assume inv: "reload_inv w0 s"
  show ?thesis
  proof (cases "step i s")
    case None
    with Run inv show ?thesis by simp
  next
    case (Some s')
    with Run reload_inv_step [OF inv Some] show ?thesis by simp
  qed
qed

lemma reload_inv_exec: "reload_inv w0 s \<Longrightarrow> reload_inv w0 (exec as s)"
  by (induction as arbitrary: s) (simp_all add: reload_inv_perform)

lemma step_pcs:
  assumes "step j s = Some s'"
  shows "\<exists>p. pcs s' = (pcs s)[j := p]"
  using assms
  by (auto simp: step_def split: if_splits pc.splits option.splits prod.splits)

lemma perform_other:
  assumes "i < length (pcs s)" "a \<noteq> Run i"
  shows "pcs (perform a s) ! i = pcs s ! i"
proof (cases a)
  case Sighup
  with assms(1) show ?thesis by (simp add: nth_append)
next
  case (Run j)
  with assms(2) have ne: "j \<noteq> i" by simp
  show ?thesis
  proof (cases "step j s")
    case None
    with Run show ?thesis by simp
  next
    case (Some s')
    from step_pcs [OF Some] obtain p where "pcs s' = (pcs s)[j := p]" by blast
    with Run Some ne show ?thesis by simp
  qed
qed

lemma blocked_behind_holder:
  assumes "reload_inv w0 s" "i < length (pcs s)" "holds (pcs s ! i)"
    and "j < length (pcs s)" "pcs s ! j = At_lock"
  shows "step j s = None"
proof -
  from assms(1,2,3) have "sig_hup_mutex (shared s)"
    by (auto simp: reload_inv_def some_holder_def)
  with assms(4,5) show ?thesis
    by (simp add: step_def mutex_lock_def)
qed

lemma refresh_continues:
  assumes "i < length (pcs s)" "pcs s ! i = In_refresh"
  shows "\<exists>s'. step i s = Some s' \<and>
               pcs s' ! i = At_log (refresh_ret (shared s) (refresh_calls (shared s)))"
  using assms by (simp add: step_def refresh_end_def Let_def)

text \<open>A single invocation, run alone, is the handler.\<close>

lemma signal_refresh_steps:
  assumes "\<not> sig_hup_mutex w"
  shows "signal_refresh s w =
           Returned (shared (exec [Sighup, Run 0, Run 0, Run 0, Run 0, Run 0]
                               \<lparr>shared = w, pcs = []\<rparr>))"
  using assms
  by (simp add: signal_refresh_def step_def mutex_lock_def http_content_refresh_def
        split: prod.splits)

lemma second_hup_pcs:
  "pcs (exec second_hup \<lparr>shared = boot_world, pcs = []\<rparr>) = [In_refresh, At_lock]"
  by (simp add: second_hup_def step_def mutex_lock_def boot_world_def emit_def
        refresh_begin_def)

text \<open>
  An invocation that holds the mutex is never kept from running: four statements of its
  own take it from any place after the lock to the end of the handler, and the last of
  them that has an effect is the \<^verbatim>\<open>mutex_unlock\<close>.
\<close>

lemma holder_runs:
  assumes "i < length (pcs s)" "holds (pcs s ! i)"
  shows "pcs (exec [Run i, Run i, Run i, Run i] s) = (pcs s)[i := Done]"
    and "\<not> sig_hup_mutex (shared (exec [Run i, Run i, Run i, Run i] s))"
  using assms
  by (cases "pcs s ! i"; simp add: step_def mutex_unlock_fields case_prod_beta)+

text \<open>An invocation at its \<^verbatim>\<open>mutex_lock\<close> takes the mutex when it is free.\<close>

lemma waiter_steps:
  assumes "j < length (pcs s)" "pcs s ! j = At_lock" "\<not> sig_hup_mutex (shared s)"
  shows "\<exists>s'. step j s = Some s' \<and> pcs s' ! j = At_call \<and> sig_hup_mutex (shared s')"
  using assms by (simp add: step_def mutex_lock_def emit_fields)

lemma holder_releases:
  assumes inv: "reload_inv w0 s" and i: "i < length (pcs s)" and h: "holds (pcs s ! i)"
  shows "pcs (exec [Run i, Run i, Run i, Run i] s) ! i = Done \<and>
         \<not> some_holder (pcs (exec [Run i, Run i, Run i, Run i] s)) \<and>
         \<not> sig_hup_mutex (shared (exec [Run i, Run i, Run i, Run i] s)) \<and>
         (\<forall>j. j < length (pcs s) \<and> pcs s ! j = At_lock \<longrightarrow>
            (\<exists>s'. step j (exec [Run i, Run i, Run i, Run i] s) = Some s' \<and>
                  pcs s' ! j = At_call \<and> sig_hup_mutex (shared s')))"
proof -
  define s1 where "s1 = exec [Run i, Run i, Run i, Run i] s"
  have p: "pcs s1 = (pcs s)[i := Done]" and m: "\<not> sig_hup_mutex (shared s1)"
    unfolding s1_def by (rule holder_runs [OF i h])+
  from inv have u: "unique_holder (pcs s)" by (simp add: reload_inv_def)
  have a: "pcs s1 ! i = Done" using i by (simp add: p)
  have b: "\<not> some_holder (pcs s1)"
    unfolding p using h by (intro release_holder(2) [OF i u]) simp_all
  have c: "\<exists>s'. step j s1 = Some s' \<and> pcs s' ! j = At_call \<and> sig_hup_mutex (shared s')"
    if "j < length (pcs s) \<and> pcs s ! j = At_lock" for j
  proof -
    from that h have "j \<noteq> i" by auto
    with that have "j < length (pcs s1)" "pcs s1 ! j = At_lock" by (simp_all add: p)
    then show ?thesis using m by (rule waiter_steps)
  qed
  from a b m c show ?thesis unfolding s1_def by blast
qed

lemma one_hup_pcs: "pcs (exec [Sighup] \<lparr>shared = boot_world, pcs = []\<rparr>) = [At_lock]"
  by simp

text \<open>
  Claim C5. Start with the reload mutex free and let any number of \<^verbatim>\<open>SIGHUP\<close>s arrive
  and their handler invocations interleave in any way. Then, at every moment:
  \<^item> at most one invocation is between its \<^verbatim>\<open>mutex_lock\<close> and its \<^verbatim>\<open>mutex_unlock\<close>, the
    section that contains the call of \<^verbatim>\<open>http_content_refresh\<close>;
  \<^item> in the trace no refresh starts while another has not returned;
  \<^item> while an invocation holds the mutex, an invocation that is at its \<^verbatim>\<open>mutex_lock\<close>
    cannot move;
  \<^item> an invocation inside the refresh stays there whatever else happens (a new
    \<^verbatim>\<open>SIGHUP\<close>, a step of another invocation), and its own next step is the return of the
    refresh;
  \<^item> the mutex is held exactly while some invocation is between its \<^verbatim>\<open>mutex_lock\<close> and
    its \<^verbatim>\<open>mutex_unlock\<close>: the unlock releases it;
  \<^item> when no invocation holds the mutex, every invocation that is at its \<^verbatim>\<open>mutex_lock\<close>
    can move, and its step takes the mutex;
  \<^item> the invocation that holds the mutex is never kept from running: four statements of
    its own bring it to the end of the handler, and then the mutex is free, no invocation
    holds it, and every invocation that waited at its \<^verbatim>\<open>mutex_lock\<close> can take it.

  A single invocation run alone is \<^verbatim>\<open>signal_refresh\<close>, which takes the mutex before the
  refresh and releases it after.
\<close>

theorem reload_serialized:
  assumes "\<not> sig_hup_mutex w0"
  shows "unique_holder (pcs (exec as \<lparr>shared = w0, pcs = []\<rparr>)) \<and>
         never_overlap (new_events w0 (shared (exec as \<lparr>shared = w0, pcs = []\<rparr>))) \<and>
         (\<forall>i j. i < length (pcs (exec as \<lparr>shared = w0, pcs = []\<rparr>)) \<and>
                j < length (pcs (exec as \<lparr>shared = w0, pcs = []\<rparr>)) \<and>
                holds (pcs (exec as \<lparr>shared = w0, pcs = []\<rparr>) ! i) \<and>
                pcs (exec as \<lparr>shared = w0, pcs = []\<rparr>) ! j = At_lock \<longrightarrow>
                step j (exec as \<lparr>shared = w0, pcs = []\<rparr>) = None) \<and>
         (\<forall>i. i < length (pcs (exec as \<lparr>shared = w0, pcs = []\<rparr>)) \<and>
              pcs (exec as \<lparr>shared = w0, pcs = []\<rparr>) ! i = In_refresh \<longrightarrow>
              (\<forall>a. a \<noteq> Run i \<longrightarrow>
                 pcs (perform a (exec as \<lparr>shared = w0, pcs = []\<rparr>)) ! i = In_refresh) \<and>
              (\<exists>s' ok. step i (exec as \<lparr>shared = w0, pcs = []\<rparr>) = Some s' \<and>
                        pcs s' ! i = At_log ok)) \<and>
         sig_hup_mutex (shared (exec as \<lparr>shared = w0, pcs = []\<rparr>)) =
           some_holder (pcs (exec as \<lparr>shared = w0, pcs = []\<rparr>)) \<and>
         (\<forall>j. j < length (pcs (exec as \<lparr>shared = w0, pcs = []\<rparr>)) \<and>
              pcs (exec as \<lparr>shared = w0, pcs = []\<rparr>) ! j = At_lock \<and>
              \<not> some_holder (pcs (exec as \<lparr>shared = w0, pcs = []\<rparr>)) \<longrightarrow>
              (\<exists>s'. step j (exec as \<lparr>shared = w0, pcs = []\<rparr>) = Some s' \<and>
                    pcs s' ! j = At_call \<and> sig_hup_mutex (shared s'))) \<and>
         (\<forall>i. i < length (pcs (exec as \<lparr>shared = w0, pcs = []\<rparr>)) \<and>
              holds (pcs (exec as \<lparr>shared = w0, pcs = []\<rparr>) ! i) \<longrightarrow>
              pcs (exec [Run i, Run i, Run i, Run i]
                     (exec as \<lparr>shared = w0, pcs = []\<rparr>)) ! i = Done \<and>
              \<not> some_holder (pcs (exec [Run i, Run i, Run i, Run i]
                                     (exec as \<lparr>shared = w0, pcs = []\<rparr>))) \<and>
              \<not> sig_hup_mutex (shared (exec [Run i, Run i, Run i, Run i]
                                          (exec as \<lparr>shared = w0, pcs = []\<rparr>))) \<and>
              (\<forall>j. j < length (pcs (exec as \<lparr>shared = w0, pcs = []\<rparr>)) \<and>
                   pcs (exec as \<lparr>shared = w0, pcs = []\<rparr>) ! j = At_lock \<longrightarrow>
                   (\<exists>s'. step j (exec [Run i, Run i, Run i, Run i]
                                   (exec as \<lparr>shared = w0, pcs = []\<rparr>)) = Some s' \<and>
                         pcs s' ! j = At_call \<and> sig_hup_mutex (shared s')))) \<and>
         signal_refresh sig w0 =
           Returned (shared (exec [Sighup, Run 0, Run 0, Run 0, Run 0, Run 0]
                               \<lparr>shared = w0, pcs = []\<rparr>))"
proof -
  define s where "s = exec as \<lparr>shared = w0, pcs = []\<rparr>"
  have inv: "reload_inv w0 s"
    unfolding s_def using assms by (intro reload_inv_exec reload_inv_init)
  have a: "unique_holder (pcs s)"
    using inv by (simp add: reload_inv_def)
  from inv obtain es where es: "trace (shared s) = trace w0 @ es"
    and sc: "foldl refresh_scan (Some False) es = Some (in_flight (pcs s))"
    by (auto simp: reload_inv_def)
  from es have "new_events w0 (shared s) = es" by (rule new_events_append)
  with sc have b: "never_overlap (new_events w0 (shared s))"
    by (simp add: never_overlap_def)
  have c: "\<forall>i j. i < length (pcs s) \<and> j < length (pcs s) \<and> holds (pcs s ! i) \<and>
                 pcs s ! j = At_lock \<longrightarrow> step j s = None"
    using blocked_behind_holder [OF inv] by blast
  have d: "\<forall>i. i < length (pcs s) \<and> pcs s ! i = In_refresh \<longrightarrow>
              (\<forall>a. a \<noteq> Run i \<longrightarrow> pcs (perform a s) ! i = In_refresh) \<and>
              (\<exists>s' ok. step i s = Some s' \<and> pcs s' ! i = At_log ok)"
  proof (intro allI impI conjI)
    fix i a
    assume "i < length (pcs s) \<and> pcs s ! i = In_refresh" "a \<noteq> Run i"
    then show "pcs (perform a s) ! i = In_refresh"
      using perform_other [of i s a] by simp
  next
    fix i
    assume "i < length (pcs s) \<and> pcs s ! i = In_refresh"
    then show "\<exists>s' ok. step i s = Some s' \<and> pcs s' ! i = At_log ok"
      using refresh_continues [of i s] by blast
  qed
  have e: "sig_hup_mutex (shared s) = some_holder (pcs s)"
    using inv by (simp add: reload_inv_def)
  have f: "\<forall>j. j < length (pcs s) \<and> pcs s ! j = At_lock \<and> \<not> some_holder (pcs s) \<longrightarrow>
              (\<exists>s'. step j s = Some s' \<and> pcs s' ! j = At_call \<and> sig_hup_mutex (shared s'))"
    using waiter_steps [of _ s] e by blast
  have g: "\<forall>i. i < length (pcs s) \<and> holds (pcs s ! i) \<longrightarrow>
              pcs (exec [Run i, Run i, Run i, Run i] s) ! i = Done \<and>
              \<not> some_holder (pcs (exec [Run i, Run i, Run i, Run i] s)) \<and>
              \<not> sig_hup_mutex (shared (exec [Run i, Run i, Run i, Run i] s)) \<and>
              (\<forall>j. j < length (pcs s) \<and> pcs s ! j = At_lock \<longrightarrow>
                   (\<exists>s'. step j (exec [Run i, Run i, Run i, Run i] s) = Some s' \<and>
                         pcs s' ! j = At_call \<and> sig_hup_mutex (shared s')))"
    using holder_releases [OF inv] by blast
  have h: "signal_refresh sig w0 =
           Returned (shared (exec [Sighup, Run 0, Run 0, Run 0, Run 0, Run 0]
                               \<lparr>shared = w0, pcs = []\<rparr>))"
    by (rule signal_refresh_steps [OF assms])
  show ?thesis
    unfolding s_def [symmetric]
    by (intro conjI; (rule a b c d e f g h))
qed

theorem reload_serialized_witness:
  "\<not> sig_hup_mutex boot_world \<and>
   pcs (exec second_hup \<lparr>shared = boot_world, pcs = []\<rparr>) = [In_refresh, At_lock] \<and>
   step 1 (exec second_hup \<lparr>shared = boot_world, pcs = []\<rparr>) = None \<and>
   pcs (perform (Run 1) (exec second_hup \<lparr>shared = boot_world, pcs = []\<rparr>)) ! 0 = In_refresh \<and>
   sig_hup_mutex (shared (exec second_hup \<lparr>shared = boot_world, pcs = []\<rparr>)) \<and>
   pcs (exec [Run 0, Run 0, Run 0, Run 0]
          (exec second_hup \<lparr>shared = boot_world, pcs = []\<rparr>)) ! 0 = Done \<and>
   \<not> sig_hup_mutex (shared (exec [Run 0, Run 0, Run 0, Run 0]
                               (exec second_hup \<lparr>shared = boot_world, pcs = []\<rparr>))) \<and>
   (\<exists>s'. step 1 (exec [Run 0, Run 0, Run 0, Run 0]
                   (exec second_hup \<lparr>shared = boot_world, pcs = []\<rparr>)) = Some s' \<and>
         pcs s' ! 1 = At_call \<and> sig_hup_mutex (shared s')) \<and>
   pcs (exec [Sighup] \<lparr>shared = boot_world, pcs = []\<rparr>) = [At_lock] \<and>
   (\<exists>s'. step 0 (exec [Sighup] \<lparr>shared = boot_world, pcs = []\<rparr>) = Some s' \<and>
         pcs s' ! 0 = At_call \<and> sig_hup_mutex (shared s'))"
proof -
  have free: "\<not> sig_hup_mutex boot_world" by (simp add: boot_world_def)
  note t = reload_serialized [OF free, of second_hup SIGHUP]
  note t1 = reload_serialized [OF free, of "[Sighup]" SIGHUP]
  note p = second_hup_pcs
  note p1 = one_hup_pcs
  from t have blocked: "0 < length (pcs (exec second_hup \<lparr>shared = boot_world, pcs = []\<rparr>)) \<and>
                1 < length (pcs (exec second_hup \<lparr>shared = boot_world, pcs = []\<rparr>)) \<and>
                holds (pcs (exec second_hup \<lparr>shared = boot_world, pcs = []\<rparr>) ! 0) \<and>
                pcs (exec second_hup \<lparr>shared = boot_world, pcs = []\<rparr>) ! 1 = At_lock \<longrightarrow>
                step 1 (exec second_hup \<lparr>shared = boot_world, pcs = []\<rparr>) = None"
    by blast
  from t have kept: "0 < length (pcs (exec second_hup \<lparr>shared = boot_world, pcs = []\<rparr>)) \<and>
              pcs (exec second_hup \<lparr>shared = boot_world, pcs = []\<rparr>) ! 0 = In_refresh \<longrightarrow>
              (\<forall>a. a \<noteq> Run 0 \<longrightarrow>
                 pcs (perform a (exec second_hup \<lparr>shared = boot_world, pcs = []\<rparr>)) ! 0 = In_refresh)"
    by blast
  have b: "step 1 (exec second_hup \<lparr>shared = boot_world, pcs = []\<rparr>) = None"
    using blocked by (simp add: p)
  have others: "\<forall>a. a \<noteq> Run 0 \<longrightarrow>
      pcs (perform a (exec second_hup \<lparr>shared = boot_world, pcs = []\<rparr>)) ! 0 = In_refresh"
    using kept by (simp add: p)
  have ne: "Run 1 \<noteq> Run 0" by simp
  from others ne
  have k: "pcs (perform (Run 1) (exec second_hup \<lparr>shared = boot_world, pcs = []\<rparr>)) ! 0 = In_refresh"
    by blast
  have sh: "some_holder [In_refresh, At_lock]"
    unfolding some_holder_def by (rule exI [of _ 0]) simp
  from t have "sig_hup_mutex (shared (exec second_hup \<lparr>shared = boot_world, pcs = []\<rparr>)) =
      some_holder (pcs (exec second_hup \<lparr>shared = boot_world, pcs = []\<rparr>))"
    by blast
  with sh have held: "sig_hup_mutex (shared (exec second_hup \<lparr>shared = boot_world, pcs = []\<rparr>))"
    by (simp add: p)
  from t have "0 < length (pcs (exec second_hup \<lparr>shared = boot_world, pcs = []\<rparr>)) \<and>
      holds (pcs (exec second_hup \<lparr>shared = boot_world, pcs = []\<rparr>) ! 0) \<longrightarrow>
      pcs (exec [Run 0, Run 0, Run 0, Run 0]
             (exec second_hup \<lparr>shared = boot_world, pcs = []\<rparr>)) ! 0 = Done \<and>
      \<not> sig_hup_mutex (shared (exec [Run 0, Run 0, Run 0, Run 0]
                                  (exec second_hup \<lparr>shared = boot_world, pcs = []\<rparr>))) \<and>
      (1 < length (pcs (exec second_hup \<lparr>shared = boot_world, pcs = []\<rparr>)) \<and>
       pcs (exec second_hup \<lparr>shared = boot_world, pcs = []\<rparr>) ! 1 = At_lock \<longrightarrow>
       (\<exists>s'. step 1 (exec [Run 0, Run 0, Run 0, Run 0]
                       (exec second_hup \<lparr>shared = boot_world, pcs = []\<rparr>)) = Some s' \<and>
             pcs s' ! 1 = At_call \<and> sig_hup_mutex (shared s')))"
    by blast
  then have rel: "pcs (exec [Run 0, Run 0, Run 0, Run 0]
             (exec second_hup \<lparr>shared = boot_world, pcs = []\<rparr>)) ! 0 = Done \<and>
      \<not> sig_hup_mutex (shared (exec [Run 0, Run 0, Run 0, Run 0]
                                  (exec second_hup \<lparr>shared = boot_world, pcs = []\<rparr>))) \<and>
      (\<exists>s'. step 1 (exec [Run 0, Run 0, Run 0, Run 0]
                       (exec second_hup \<lparr>shared = boot_world, pcs = []\<rparr>)) = Some s' \<and>
             pcs s' ! 1 = At_call \<and> sig_hup_mutex (shared s'))"
    by (simp add: p)
  have nh: "\<not> some_holder [At_lock]"
    by (simp add: some_holder_def)
  from t1 have "0 < length (pcs (exec [Sighup] \<lparr>shared = boot_world, pcs = []\<rparr>)) \<and>
      pcs (exec [Sighup] \<lparr>shared = boot_world, pcs = []\<rparr>) ! 0 = At_lock \<and>
      \<not> some_holder (pcs (exec [Sighup] \<lparr>shared = boot_world, pcs = []\<rparr>)) \<longrightarrow>
      (\<exists>s'. step 0 (exec [Sighup] \<lparr>shared = boot_world, pcs = []\<rparr>) = Some s' \<and>
            pcs s' ! 0 = At_call \<and> sig_hup_mutex (shared s'))"
    by blast
  with nh have go: "\<exists>s'. step 0 (exec [Sighup] \<lparr>shared = boot_world, pcs = []\<rparr>) = Some s' \<and>
            pcs s' ! 0 = At_call \<and> sig_hup_mutex (shared s')"
    by (simp only: p1) simp
  from free p b k held rel p1 go show ?thesis by blast
qed


end
